theory Spec2Isabelle
  imports Complex_Main "HOL-Library.Sublist" "HOL-Library.Char_ord" "HOL-Library.List_Lexorder"
    "HOL-Library.Multiset"
begin

section \<open>pyspeedtest: a shallow embedding of \<^verbatim>\<open>pyspeedtest.py\<close>\<close>

text \<open>
  Python floats are modelled by \<^typ>\<open>real\<close>: rounding of the arithmetic, infinities,
  NaN and the negative zero are outside the model. Python integers are \<^typ>\<open>int\<close> or,
  where the source only counts upwards from zero, \<^typ>\<open>nat\<close>. Text is \<^typ>\<open>string\<close>.
  A raised exception is the \<open>Inl\<close> branch of a sum.
\<close>

datatype exn =
    Exception string
  | ValueError
  | IndexError
  | AttributeError
  | ZeroDivisionError

subsection \<open>\<^verbatim>\<open>pretty_speed\<close>\<close>

definition units :: "string list" where
  "units = [''bps'', ''Kbps'', ''Mbps'', ''Gbps'', ''Tbps'']"

text \<open>
  The loop \<^verbatim>\<open>while speed >= 1024: speed /= 1024; unit += 1\<close>, on the pair of the two
  variables it updates.
\<close>

function pretty_speed_loop :: "real \<Rightarrow> nat \<Rightarrow> real \<times> nat" where
  "pretty_speed_loop speed unit =
     (if speed \<ge> 1024 then pretty_speed_loop (speed / 1024) (unit + 1) else (speed, unit))"
  by pat_completeness auto
termination
proof (relation "measure (\<lambda>(speed, unit). nat \<lfloor>speed\<rfloor>)")
  show "wf (measure (\<lambda>(speed :: real, unit :: nat). nat \<lfloor>speed\<rfloor>))"
    by simp
next
  fix speed :: real and unit :: nat
  assume big: "1024 \<le> speed"
  have "speed / 1024 + 1 \<le> speed"
    using big by simp
  then have "\<lfloor>speed / 1024\<rfloor> + 1 \<le> \<lfloor>speed\<rfloor>"
    by (metis floor_mono floor_add_int of_int_1)
  moreover have "0 \<le> \<lfloor>speed / 1024\<rfloor>"
    using big by simp
  moreover have "1 \<le> speed"
    using big by simp
  ultimately show "((speed / 1024, unit + 1), (speed, unit)) \<in> measure (\<lambda>(speed, unit). nat \<lfloor>speed\<rfloor>)"
    by simp
qed

declare pretty_speed_loop.simps [simp del]

text \<open>
  The conversion \<^verbatim>\<open>%0.2f\<close>: an optional sign, the integer part in decimal, a point and
  two decimals, the value rounded to the nearest hundredth and a tie to the even one.
\<close>

definition digit :: "nat \<Rightarrow> char" where
  "digit d = ''0123456789'' ! d"

fun decimal :: "nat \<Rightarrow> string" where
  "decimal n = (if n < 10 then [digit n] else decimal (n div 10) @ [digit (n mod 10)])"

declare decimal.simps [simp del]

definition round_half_even :: "real \<Rightarrow> int" where
  "round_half_even x =
     (let f = \<lfloor>x\<rfloor>; d = x - of_int f
      in if d < 1 / 2 then f
         else if 1 / 2 < d then f + 1
         else if even f then f else f + 1)"

definition format_2f :: "real \<Rightarrow> string" where
  "format_2f x =
     (let n = nat (round_half_even (\<bar>x\<bar> * 100))
      in (if x < 0 then ''-'' else '''') @ decimal (n div 100) @ ''.''
           @ [digit (n div 10 mod 10), digit (n mod 10)])"

text \<open>
  \<^verbatim>\<open>units[unit]\<close> raises \<^verbatim>\<open>IndexError\<close> when \<open>unit\<close> is past the end of the list; the
  index is never negative.
\<close>

definition pretty_speed :: "real \<Rightarrow> exn + string" where
  "pretty_speed speed0 =
     (let (speed, unit) = pretty_speed_loop speed0 0
      in if unit < length units then Inr (format_2f speed @ '' '' @ units ! unit)
         else Inl IndexError)"

subsection \<open>Logging\<close>

text \<open>
  A call \<^verbatim>\<open>logging.info(fmt, arg, ...)\<close> is recorded as the format string and the
  arguments it is given; the log of an operation is the list of its calls, in order.
\<close>

datatype log_arg = S string | F real

type_synonym log_record = "string \<times> log_arg list"

subsection \<open>\<^verbatim>\<open>SpeedTest.connect\<close>\<close>

text \<open>
  Whatever goes wrong while a connection is opened is raised again as
  \<^verbatim>\<open>Exception("Error connecting to '%s'" % url)\<close>.
\<close>

definition connect_error :: "string \<Rightarrow> exn" where
  "connect_error url = Exception (''Error connecting to '' @ [CHR 0x27] @ url @ [CHR 0x27])"

subsection \<open>\<^verbatim>\<open>SpeedTest.ping\<close>\<close>

text \<open>
  What the network does during latency probes: whether the connection of probe number
  \<open>k\<close> to a server opens, and the time the \<open>i\<close>-th round trip of that probe takes
  (\<^verbatim>\<open>time() - total_start_time\<close>, in seconds). Requests on an open connection are
  taken to complete.
\<close>

record net =
  probe_connects :: "nat \<Rightarrow> string \<Rightarrow> bool"
  probe_elapsed :: "nat \<Rightarrow> string \<Rightarrow> nat \<Rightarrow> real"

text \<open>The loop \<^verbatim>\<open>for _ in range(5)\<close> on the variables \<open>times\<close> (here \<open>times_list\<close>) and \<open>worst\<close>.\<close>

fun ping_loop :: "(nat \<Rightarrow> real) \<Rightarrow> nat list \<Rightarrow> real list \<Rightarrow> real \<Rightarrow> real list \<times> real" where
  "ping_loop elapsed [] times_list worst = (times_list, worst)"
| "ping_loop elapsed (i # rest) times_list worst =
     (let total_ms = elapsed i
      in ping_loop elapsed rest (times_list @ [total_ms]) (if total_ms > worst then total_ms else worst))"

text \<open>
  \<^verbatim>\<open>times.remove(worst)\<close> removes the first element equal to \<open>worst\<close> and raises
  \<^verbatim>\<open>ValueError\<close> when there is none.
\<close>

definition list_remove :: "'a \<Rightarrow> 'a list \<Rightarrow> exn + 'a list" where
  "list_remove x xs = (if x \<in> set xs then Inr (remove1 x xs) else Inl ValueError)"

text \<open>
  \<^verbatim>\<open>ping\<close> called with a server name, as the selector calls it (called with none, it
  takes the selected host first). The result is the log and the value returned or the
  exception raised.
\<close>

definition ping :: "net \<Rightarrow> nat \<Rightarrow> string \<Rightarrow> log_record list \<times> (exn + real)" where
  "ping w k server =
     (if \<not> probe_connects w k server then ([], Inl (connect_error server))
      else
        (let (times_list, worst) = ping_loop (probe_elapsed w k server) [0..<5] [] 0
         in case list_remove worst times_list of
              Inl e \<Rightarrow> ([], Inl e)
            | Inr times_list' \<Rightarrow>
                (let total_ms = sum_list times_list' * 250
                 in ([(''Latency for %s - %d'', [S server, F total_ms])], Inr total_ms))))"

text \<open>The probes a log records: the server and the latency of every completed \<^verbatim>\<open>ping\<close>.\<close>

fun latency_record :: "log_record \<Rightarrow> (string \<times> real) option" where
  "latency_record (fmt, [S server, F total_ms]) =
     (if fmt = ''Latency for %s - %d'' then Some (server, total_ms) else None)"
| "latency_record _ = None"

definition probed :: "log_record list \<Rightarrow> (string \<times> real) list" where
  "probed records = List.map_filter latency_record records"

subsection \<open>Regular expressions of the selector\<close>

definition dq :: char where
  "dq = CHR 0x22"

text \<open>A literal at the start of the text: what follows it, if it is there.\<close>

fun strip_prefix :: "string \<Rightarrow> string \<Rightarrow> string option" where
  "strip_prefix [] s = Some s"
| "strip_prefix (p # ps) [] = None"
| "strip_prefix (p # ps) (c # cs) = (if p = c then strip_prefix ps cs else None)"

text \<open>
  \<^verbatim>\<open>http://([^/]+)/speedtest/upload\.php\<close> matched at the start of the text. The group
  is the longest run without a slash: a shorter run would have to be followed by a slash,
  and is followed by a character of the run.
\<close>

definition match_upload :: "string \<Rightarrow> string option" where
  "match_upload s =
     (case strip_prefix ''http://'' s of
        None \<Rightarrow> None
      | Some r \<Rightarrow>
          (let server_host = takeWhile (\<lambda>c. c \<noteq> CHR ''/'') r
           in if server_host = [] then None
              else (case strip_prefix ''/speedtest/upload.php'' (dropWhile (\<lambda>c. c \<noteq> CHR ''/'') r) of
                      None \<Rightarrow> None
                    | Some _ \<Rightarrow> Some server_host)))"

text \<open>\<^verbatim>\<open>re.search\<close>: the match at the leftmost position that has one.\<close>

fun search_upload :: "string \<Rightarrow> string option" where
  "search_upload [] = match_upload []"
| "search_upload (c # cs) =
     (case match_upload (c # cs) of Some server_host \<Rightarrow> Some server_host | None \<Rightarrow> search_upload cs)"

text \<open>
  \<^verbatim>\<open><client ip="([^"]*)" lat="([^"]*)" lon="([^"]*)"\<close> and the same with
  \<^verbatim>\<open><server url=\<close>, matched at the start of the text: the three groups and the text
  after the match. Each group is the longest run without a double quote.
\<close>

definition match_tag :: "string \<Rightarrow> string \<Rightarrow> ((string \<times> string \<times> string) \<times> string) option" where
  "match_tag opening s =
     (case strip_prefix (opening @ [dq]) s of
        None \<Rightarrow> None
      | Some s1 \<Rightarrow>
          (case strip_prefix ([dq] @ '' lat='' @ [dq]) (dropWhile (\<lambda>c. c \<noteq> dq) s1) of
             None \<Rightarrow> None
           | Some s2 \<Rightarrow>
               (case strip_prefix ([dq] @ '' lon='' @ [dq]) (dropWhile (\<lambda>c. c \<noteq> dq) s2) of
                  None \<Rightarrow> None
                | Some s3 \<Rightarrow>
                    (case strip_prefix [dq] (dropWhile (\<lambda>c. c \<noteq> dq) s3) of
                       None \<Rightarrow> None
                     | Some rest \<Rightarrow>
                         Some ((takeWhile (\<lambda>c. c \<noteq> dq) s1,
                                takeWhile (\<lambda>c. c \<noteq> dq) s2,
                                takeWhile (\<lambda>c. c \<noteq> dq) s3), rest)))))"

fun search_client :: "string \<Rightarrow> (string \<times> string \<times> string) option" where
  "search_client [] = None"
| "search_client (c # cs) =
     (case match_tag ''<client ip='' (c # cs) of
        Some (groups, _) \<Rightarrow> Some groups
      | None \<Rightarrow> search_client cs)"

text \<open>
  \<^verbatim>\<open>re.findall\<close>: the matches from left to right, each search starting where the match
  before it ended. The first argument counts the characters still inside the last match.
\<close>

fun findall_server :: "nat \<Rightarrow> string \<Rightarrow> (string \<times> string \<times> string) list" where
  "findall_server skip [] = []"
| "findall_server (Suc skip) (c # cs) = findall_server skip cs"
| "findall_server 0 (c # cs) =
     (case match_tag ''<server url='' (c # cs) of
        None \<Rightarrow> findall_server 0 cs
      | Some (groups, rest) \<Rightarrow> groups # findall_server (length cs - length rest) cs)"

subsection \<open>\<^verbatim>\<open>SpeedTest.calc_distance\<close>\<close>

text \<open>
  The built-in \<^verbatim>\<open>float\<close> on text is a parameter: the number read, or \<open>None\<close> where it
  raises \<^verbatim>\<open>ValueError\<close>. Location and server are the three groups of their match.
\<close>

definition calc_distance ::
  "(string \<Rightarrow> real option) \<Rightarrow> string \<times> string \<times> string \<Rightarrow> string \<times> string \<times> string \<Rightarrow> exn + real" where
  "calc_distance float location server =
     (case float (fst (snd location)) of None \<Rightarrow> Inl ValueError | Some my_lat \<Rightarrow>
      case float (snd (snd location)) of None \<Rightarrow> Inl ValueError | Some my_lon \<Rightarrow>
      case float (fst (snd server)) of None \<Rightarrow> Inl ValueError | Some s_lat \<Rightarrow>
      case float (snd (snd server)) of None \<Rightarrow> Inl ValueError | Some s_lon \<Rightarrow>
        Inr (sqrt ((s_lat - my_lat)\<^sup>2 + (s_lon - my_lon)\<^sup>2)))"

subsection \<open>\<^verbatim>\<open>SpeedTest.chooseserver\<close>\<close>

text \<open>
  Tuples \<^verbatim>\<open>(distance, url)\<close> compare by the distance first and by the text second.
  \<^verbatim>\<open>bisect.insort_left\<close> puts the new tuple before the first one that is not less.
\<close>

definition tuple_less :: "real \<times> string \<Rightarrow> real \<times> string \<Rightarrow> bool" where
  "tuple_less a b \<longleftrightarrow> fst a < fst b \<or> (fst a = fst b \<and> snd a < snd b)"

definition insort_left :: "real \<times> string \<Rightarrow> (real \<times> string) list \<Rightarrow> (real \<times> string) list" where
  "insort_left x a = takeWhile (\<lambda>y. tuple_less y x) a @ x # dropWhile (\<lambda>y. tuple_less y x) a"

fun rank_servers ::
  "(string \<Rightarrow> real option) \<Rightarrow> string \<times> string \<times> string \<Rightarrow> (string \<times> string \<times> string) list
     \<Rightarrow> (real \<times> string) list \<Rightarrow> exn + (real \<times> string) list" where
  "rank_servers float location [] sorted_server_list = Inr sorted_server_list"
| "rank_servers float location (server # rest) sorted_server_list =
     (case calc_distance float location server of
        Inl e \<Rightarrow> Inl e
      | Inr distance \<Rightarrow>
          rank_servers float location rest (insort_left (distance, fst server) sorted_server_list))"

text \<open>
  The loop over \<^verbatim>\<open>sorted_server_list[:10]\<close>, on the variable \<open>best_server\<close>; \<open>k\<close>
  counts the probes made so far.
\<close>

fun select_loop ::
  "net \<Rightarrow> nat \<Rightarrow> (real \<times> string) list \<Rightarrow> real \<times> string
     \<Rightarrow> log_record list \<times> (exn + real \<times> string)" where
  "select_loop w k [] best_server = ([], Inr best_server)"
| "select_loop w k (server # rest) best_server =
     (case search_upload (snd server) of
        None \<Rightarrow>
          (let (l, r) = select_loop w k rest best_server
           in ((snd server, []) # l, r))
      | Some server_host \<Rightarrow>
          (case ping w k server_host of
             (lp, Inl e) \<Rightarrow> ((snd server, []) # lp, Inl e)
           | (lp, Inr latency) \<Rightarrow>
               (let (l, r) = select_loop w (Suc k) rest
                               (if latency < fst best_server then (latency, server_host)
                                else best_server)
                in ((snd server, []) # lp @ l, r))))"

text \<open>The selector from the initial \<open>best_server\<close> to its end.\<close>

definition no_server_found :: exn where
  "no_server_found = Exception ''Cannot find a test server''"

definition select_server :: "net \<Rightarrow> (real \<times> string) list \<Rightarrow> log_record list \<times> (exn + string)" where
  "select_server w sorted_server_list =
     (case select_loop w 0 (take 10 sorted_server_list) (999999, '''') of
        (l, Inl e) \<Rightarrow> (l, Inl e)
      | (l, Inr best_server) \<Rightarrow>
          if snd best_server = [] then (l, Inl no_server_found)
          else (l @ [(''Best server: %s'', [S (snd best_server)])], Inr (snd best_server)))"

text \<open>
  What the directory host answers: whether the connection opens, and the bodies of
  \<^verbatim>\<open>/speedtest-config.php\<close> and \<^verbatim>\<open>/speedtest-servers.php\<close>. The result \<open>Inr None\<close> is
  Python's \<^verbatim>\<open>None\<close> returned.
\<close>

record directory =
  dir_connects :: bool
  config_reply :: string
  servers_reply :: string

definition location_message :: "string \<times> string \<times> string \<Rightarrow> string" where
  "location_message location =
     ''Your IP: '' @ fst location @ [CHR 0x0A] @ ''Your latitude: '' @ fst (snd location)
       @ [CHR 0x0A] @ ''Your longitude: '' @ snd (snd location)"

definition chooseserver ::
  "(string \<Rightarrow> real option) \<Rightarrow> directory \<Rightarrow> net \<Rightarrow> log_record list \<times> (exn + string option)" where
  "chooseserver float d w =
     (if \<not> dir_connects d then ([], Inl (connect_error ''www.speedtest.net''))
      else
        (case search_client (config_reply d) of
           None \<Rightarrow> ([(''Failed to retrieve coordinates'', [])], Inr None)
         | Some location \<Rightarrow>
             (case rank_servers float location (findall_server 0 (servers_reply d)) [] of
                Inl e \<Rightarrow> ([(location_message location, [])], Inl e)
              | Inr sorted_server_list \<Rightarrow>
                  (case select_server w sorted_server_list of
                     (l, Inl e) \<Rightarrow> ((location_message location, []) # l, Inl e)
                   | (l, Inr best) \<Rightarrow> ((location_message location, []) # l, Inr (Some best))))))"

subsection \<open>\<^verbatim>\<open>SpeedTest.download\<close>\<close>

definition DOWNLOAD_FILES :: "string list" where
  "DOWNLOAD_FILES =
     [''/speedtest/random350x350.jpg'',
      ''/speedtest/random500x500.jpg'',
      ''/speedtest/random1500x1500.jpg'']"

text \<open>
  What the network does during a download batch: whether the connection of each run
  opens, the two readings of \<^verbatim>\<open>time()\<close> around the transfers, and for each file and
  run the length of the body the worker reads; \<open>None\<close> when the worker raises, which
  leaves its thread without the attribute \<^verbatim>\<open>downloaded\<close>. Each worker has a connection
  and a result of its own, and the coordinator reads the results after the joins in the
  order of the runs, so the schedule of the workers does not enter the total.
\<close>

record download_net =
  dl_connects :: "nat \<Rightarrow> bool"
  dl_start_time :: real
  dl_end_time :: real
  dl_read :: "string \<Rightarrow> nat \<Rightarrow> nat option"

text \<open>The loop \<^verbatim>\<open>for run in range(self.runs): connections.append(self.connect(self.host))\<close>.\<close>

fun open_connections :: "(nat \<Rightarrow> bool) \<Rightarrow> string \<Rightarrow> nat list \<Rightarrow> exn + unit" where
  "open_connections opens host [] = Inr ()"
| "open_connections opens host (run # rest) =
     (if opens run then open_connections opens host rest else Inl (connect_error host))"

text \<open>The loop \<^verbatim>\<open>for thread in threads\<close> of one file, on \<open>total_downloaded\<close>.\<close>

fun join_downloads :: "(nat \<Rightarrow> nat option) \<Rightarrow> nat list \<Rightarrow> nat \<Rightarrow> exn + nat" where
  "join_downloads downloaded [] total_downloaded = Inr total_downloaded"
| "join_downloads downloaded (run # rest) total_downloaded =
     (case downloaded run of
        None \<Rightarrow> Inl AttributeError
      | Some n \<Rightarrow> join_downloads downloaded rest (total_downloaded + n))"

text \<open>The loop \<^verbatim>\<open>for current_file in SpeedTest.DOWNLOAD_FILES\<close>.\<close>

fun download_files :: "(string \<Rightarrow> nat \<Rightarrow> nat option) \<Rightarrow> nat \<Rightarrow> string list \<Rightarrow> nat \<Rightarrow> exn + nat" where
  "download_files rd runs [] total_downloaded = Inr total_downloaded"
| "download_files rd runs (current_file # rest) total_downloaded =
     (case join_downloads (rd current_file) [0..<runs] total_downloaded of
        Inl e \<Rightarrow> Inl e
      | Inr total_downloaded' \<Rightarrow> download_files rd runs rest total_downloaded')"

text \<open>
  \<^verbatim>\<open>download\<close> with the host already selected. Dividing by a float that is zero
  raises \<^verbatim>\<open>ZeroDivisionError\<close>.
\<close>

definition download :: "download_net \<Rightarrow> string \<Rightarrow> nat \<Rightarrow> exn + real" where
  "download n host runs =
     (case open_connections (dl_connects n) host [0..<runs] of
        Inl e \<Rightarrow> Inl e
      | Inr _ \<Rightarrow>
          (case download_files (dl_read n) runs DOWNLOAD_FILES 0 of
             Inl e \<Rightarrow> Inl e
           | Inr total_downloaded \<Rightarrow>
               (let total_ms = (dl_end_time n - dl_start_time n) * 1000
                in if total_ms = 0 then Inl ZeroDivisionError
                   else Inr (real total_downloaded * 8000 / total_ms))))"

subsection \<open>\<^verbatim>\<open>SpeedTest.uploadthread\<close> and \<^verbatim>\<open>SpeedTest.upload\<close>\<close>

definition UPLOAD_FILES :: "nat list" where
  "UPLOAD_FILES = [132884, 493638]"

definition ALPHABET :: string where
  "ALPHABET = ''0123456789abcdefghijklmnopqrstuvwxyzABCDEFGHIJKLMNOPQRSTUVWXYZ''"

text \<open>\<^verbatim>\<open>reply.split('=')\<close>: the pieces between the separators, one more than there are separators.\<close>

fun split_on :: "char \<Rightarrow> string \<Rightarrow> string list" where
  "split_on sep [] = [[]]"
| "split_on sep (c # cs) =
     (if c = sep then [] # split_on sep cs
      else (c # hd (split_on sep cs)) # tl (split_on sep cs))"

text \<open>
  One worker: the response body it reads (\<open>None\<close> when the request raises) and the value
  it leaves in \<^verbatim>\<open>uploaded\<close>; \<open>None\<close> when it raises before the assignment, on the
  request, on the index \<^verbatim>\<open>[1]\<close> or in \<^verbatim>\<open>int\<close>. The built-in \<^verbatim>\<open>int\<close> on text is a
  parameter: the number read, or \<open>None\<close> where it raises \<^verbatim>\<open>ValueError\<close>.
\<close>

definition uploadthread :: "(string \<Rightarrow> int option) \<Rightarrow> string option \<Rightarrow> int option" where
  "uploadthread int_of response =
     (case response of
        None \<Rightarrow> None
      | Some reply \<Rightarrow>
          (let fields = split_on CHR ''='' reply
           in if length fields \<le> 1 then None else int_of (fields ! 1)))"

text \<open>
  What the network and the random generator do during an upload batch: connections and
  clock as for a download, the index \<^verbatim>\<open>random.choice\<close> draws for each position of the
  payload of each size, and the body the server answers to the data a run posts.
\<close>

record upload_net =
  ul_connects :: "nat \<Rightarrow> bool"
  ul_start_time :: real
  ul_end_time :: real
  ul_choice :: "nat \<Rightarrow> nat \<Rightarrow> nat"
  ul_response :: "string \<Rightarrow> nat \<Rightarrow> string option"

text \<open>
  \<^verbatim>\<open>urlencode({'content0': payload})\<close>, the payload drawn from \<open>ALPHABET\<close>, whose
  characters the encoding leaves as they are.
\<close>

definition post_data :: "(nat \<Rightarrow> nat \<Rightarrow> nat) \<Rightarrow> string list" where
  "post_data choice =
     map (\<lambda>current_file_size.
            ''content0='' @ map (\<lambda>i. ALPHABET ! (choice current_file_size i mod length ALPHABET))
                              [0..<current_file_size])
         UPLOAD_FILES"

fun join_uploads :: "(nat \<Rightarrow> int option) \<Rightarrow> nat list \<Rightarrow> int \<Rightarrow> exn + int" where
  "join_uploads uploaded [] total_uploaded = Inr total_uploaded"
| "join_uploads uploaded (run # rest) total_uploaded =
     (case uploaded run of
        None \<Rightarrow> Inl AttributeError
      | Some n \<Rightarrow> join_uploads uploaded rest (total_uploaded + n))"

fun upload_items ::
  "(string \<Rightarrow> int option) \<Rightarrow> (string \<Rightarrow> nat \<Rightarrow> string option) \<Rightarrow> nat \<Rightarrow> string list \<Rightarrow> int \<Rightarrow> exn + int" where
  "upload_items int_of response runs [] total_uploaded = Inr total_uploaded"
| "upload_items int_of response runs (data # rest) total_uploaded =
     (case join_uploads (\<lambda>run. uploadthread int_of (response data run)) [0..<runs] total_uploaded of
        Inl e \<Rightarrow> Inl e
      | Inr total_uploaded' \<Rightarrow> upload_items int_of response runs rest total_uploaded')"

definition upload :: "(string \<Rightarrow> int option) \<Rightarrow> upload_net \<Rightarrow> string \<Rightarrow> nat \<Rightarrow> exn + real" where
  "upload int_of n host runs =
     (case open_connections (ul_connects n) host [0..<runs] of
        Inl e \<Rightarrow> Inl e
      | Inr _ \<Rightarrow>
          (case upload_items int_of (ul_response n) runs (post_data (ul_choice n)) 0 of
             Inl e \<Rightarrow> Inl e
           | Inr total_uploaded \<Rightarrow>
               (let total_ms = (ul_end_time n - ul_start_time n) * 1000
                in if total_ms = 0 then Inl ZeroDivisionError
                   else Inr (real_of_int total_uploaded * 8000 / total_ms))))"

subsection \<open>Notions the statements use\<close>

text \<open>
  The hosts of the candidates whose URL has the shape of an upload endpoint, in the order
  of the candidates.
\<close>

definition upload_hosts :: "(real \<times> string) list \<Rightarrow> string list" where
  "upload_hosts servers = List.map_filter (\<lambda>server. search_upload (snd server)) servers"

text \<open>The update of \<open>best_server\<close> by one probe \<open>(server_host, latency)\<close>.\<close>

definition track :: "real \<times> string \<Rightarrow> string \<times> real \<Rightarrow> real \<times> string" where
  "track best_server p = (if snd p < fst best_server then (snd p, fst p) else best_server)"

text \<open>
  The distance along a great circle of a sphere of radius \<open>R\<close> between two points given by
  latitude and longitude in degrees (the haversine formula). The program does not compute
  it; it is here to be compared with \<^verbatim>\<open>calc_distance\<close>.
\<close>

definition great_circle :: "real \<Rightarrow> real \<Rightarrow> real \<Rightarrow> real \<Rightarrow> real \<Rightarrow> real" where
  "great_circle R lat1 lon1 lat2 lon2 =
     2 * R * arcsin (sqrt ((sin ((lat2 - lat1) * pi / 360))\<^sup>2
                            + cos (lat1 * pi / 180) * cos (lat2 * pi / 180)
                              * (sin ((lon2 - lon1) * pi / 360))\<^sup>2))"

section \<open>\<^verbatim>\<open>ping\<close>: the worst of five samples is dropped\<close>

lemma ping_loop_eq:
  "ping_loop elapsed is ts w = (ts @ map elapsed is, foldl max w (map elapsed is))"
  by (induction "is" arbitrary: ts w) (auto simp: Let_def max_def)

lemma foldl_max_Max: "foldl max w xs = Max (insert (w::real) (set xs))"
proof (induction xs arbitrary: w)
  case Nil
  then show ?case by simp
next
  case (Cons x xs)
  have "Max (insert (max w x) (set xs)) = Max (insert w (insert x (set xs)))"
    by (metis List.finite_set Max_insert Max_singleton finite.insertI insert_not_empty max.assoc max.commute)
  then show ?case using Cons.IH[of "max w x"] by simp
qed

lemma worst_is_Max:
  assumes "\<exists>x\<in>set xs. (0::real) \<le> x"
  shows "foldl max 0 xs = Max (set xs)"
proof -
  from assms obtain x where x: "x \<in> set xs" "0 \<le> x" by blast
  then have ne: "set xs \<noteq> {}" by auto
  have "Max (insert 0 (set xs)) = max 0 (Max (set xs))"
    using ne by simp
  moreover have "x \<le> Max (set xs)" using x by simp
  ultimately show ?thesis using x by (simp add: foldl_max_Max max_def)
qed

lemma sum_list_remove1_real:
  "x \<in> set xs \<Longrightarrow> sum_list (remove1 x xs) = sum_list xs - (x::real)"
  using sum_list_map_remove1[of x xs "\<lambda>y. y"] by simp

lemma ping_value:
  assumes "probe_connects w k server" and "\<exists>i<5. 0 \<le> probe_elapsed w k server i"
  shows "ping w k server =
     (let samples = map (probe_elapsed w k server) [0..<5];
          total_ms = sum_list (remove1 (Max (set samples)) samples) * 250
      in ([(''Latency for %s - %d'', [S server, F total_ms])], Inr total_ms))"
proof -
  let ?xs = "map (probe_elapsed w k server) [0..<5]"
  have ex: "\<exists>x\<in>set ?xs. 0 \<le> x" using assms(2) by auto
  have worst: "foldl max 0 ?xs = Max (set ?xs)" by (rule worst_is_Max[OF ex])
  have mem: "Max (set ?xs) \<in> set ?xs" by (rule Max_in) auto
  show ?thesis
    unfolding ping_def ping_loop_eq using assms(1) mem worst
    by (simp add: list_remove_def Let_def del: upt_Suc)
qed

lemma ping_completes:
  assumes "probe_connects w k h" and "\<exists>i<5. 0 \<le> probe_elapsed w k h i"
  shows "\<exists>lp ms. ping w k h = (lp, Inr ms)"
  using ping_value[OF assms] by (simp add: Let_def)

lemma ping_Inl: "ping w k h = (lp, Inl e) \<Longrightarrow> lp = [] \<and> (e = connect_error h \<or> e = ValueError)"
  by (auto simp: ping_def list_remove_def Let_def split: if_splits prod.splits sum.splits)

lemma ping_Inr: "ping w k h = (lp, Inr ms) \<Longrightarrow> lp = [(''Latency for %s - %d'', [S h, F ms])]"
  by (auto simp: ping_def list_remove_def Let_def split: if_splits prod.splits sum.splits)

text \<open>
  C1. A round-trip time is not negative. When the connection opens and the five samples
  are not negative (one sample that is not negative is all the proof needs), \<^verbatim>\<open>ping\<close>
  returns (the sum of the five samples minus their maximum) times 250. The samples summed
  are the five with the first occurrence of the maximum removed, so four of them
  contribute, also when the maximum occurs more than once.
\<close>

theorem ping_drops_worst:
  assumes "probe_connects w k server" and "\<exists>i<5. 0 \<le> probe_elapsed w k server i"
  shows "snd (ping w k server) =
           Inr ((sum_list (map (probe_elapsed w k server) [0..<5])
                 - Max (set (map (probe_elapsed w k server) [0..<5]))) * 250)
       \<and> snd (ping w k server) =
           Inr (sum_list (remove1 (Max (set (map (probe_elapsed w k server) [0..<5])))
                            (map (probe_elapsed w k server) [0..<5])) * 250)
       \<and> length (remove1 (Max (set (map (probe_elapsed w k server) [0..<5])))
                   (map (probe_elapsed w k server) [0..<5])) = 4"
proof -
  let ?xs = "map (probe_elapsed w k server) [0..<5]"
  have mem: "Max (set ?xs) \<in> set ?xs" by (rule Max_in) auto
  have val: "snd (ping w k server) = Inr (sum_list (remove1 (Max (set ?xs)) ?xs) * 250)"
    using ping_value[OF assms] by (simp add: Let_def)
  have sum: "sum_list (remove1 (Max (set ?xs)) ?xs) = sum_list ?xs - Max (set ?xs)"
    by (rule sum_list_remove1_real[OF mem])
  have len: "length (remove1 (Max (set ?xs)) ?xs) = 4"
    using mem by (simp add: length_remove1 del: upt_Suc)
  from val sum len show ?thesis by simp
qed

theorem ping_drops_worst_witness:
  "probe_connects \<lparr>probe_connects = \<lambda>k server. True,
                   probe_elapsed = \<lambda>k server i. [3 / 100, 7 / 100, 7 / 100, 1 / 100, 2 / 100] ! i\<rparr> 0 ''a''
   \<and> (\<exists>i<5. 0 \<le> probe_elapsed \<lparr>probe_connects = \<lambda>k server. True,
                   probe_elapsed = \<lambda>k server i. [3 / 100, 7 / 100, 7 / 100, 1 / 100, 2 / 100] ! i\<rparr> 0 ''a'' i)
   \<and> snd (ping \<lparr>probe_connects = \<lambda>k server. True,
                 probe_elapsed = \<lambda>k server i. [3 / 100, 7 / 100, 7 / 100, 1 / 100, 2 / 100] ! i\<rparr> 0 ''a'')
       = Inr (65 / 2)"
proof -
  let ?w = "\<lparr>probe_connects = \<lambda>k server. True,
             probe_elapsed = \<lambda>k server i. [3 / 100, 7 / 100, 7 / 100, 1 / 100, 2 / 100 :: real] ! i\<rparr>"
  have c: "probe_connects ?w 0 ''a''"
    by simp
  have e: "\<exists>i<5. 0 \<le> probe_elapsed ?w 0 ''a'' i"
    by (intro exI[of _ 0]) simp
  have "snd (ping ?w 0 ''a'') = Inr (65 / 2)"
    using ping_drops_worst[OF c e] by (simp add: upt_rec)
  with c e show ?thesis by blast
qed

section \<open>The selector: which candidates are probed and which one wins\<close>

lemma match_upload_nonempty: "match_upload s = Some h \<Longrightarrow> h \<noteq> []"
  by (auto simp: match_upload_def Let_def split: option.splits if_splits)

lemma search_upload_nonempty: "search_upload s = Some h \<Longrightarrow> h \<noteq> []"
  by (induction s) (auto dest: match_upload_nonempty split: option.splits)

lemma upload_hosts_nonempty: "h \<in> set (upload_hosts servers) \<Longrightarrow> h \<noteq> []"
  by (auto simp: upload_hosts_def map_filter_def dest: search_upload_nonempty)

lemma upload_hosts_Nil [simp]: "upload_hosts [] = []"
  by (simp add: upload_hosts_def)

lemma upload_hosts_Cons:
  "upload_hosts (server # rest) =
     (case search_upload (snd server) of None \<Rightarrow> upload_hosts rest | Some h \<Rightarrow> h # upload_hosts rest)"
  by (simp add: upload_hosts_def map_filter_simps split: option.splits)

lemma length_upload_hosts: "length (upload_hosts servers) \<le> length servers"
  by (induction servers) (auto simp: upload_hosts_Cons split: option.splits)

lemma probed_Nil [simp]: "probed [] = []"
  by (simp add: probed_def)

lemma probed_append [simp]: "probed (l1 @ l2) = probed l1 @ probed l2"
  by (simp add: probed_def map_filter_def)

lemma probed_plain [simp]: "probed ((msg, []) # l) = probed l"
  by (simp add: probed_def map_filter_simps)

lemma probed_best [simp]: "probed ((msg, [S h]) # l) = probed l"
  by (simp add: probed_def map_filter_simps)

lemma probed_latency [simp]:
  "probed ((''Latency for %s - %d'', [S h, F ms]) # l) = (h, ms) # probed l"
  by (simp add: probed_def map_filter_simps)

lemma connect_error_not_nsf: "connect_error h \<noteq> no_server_found"
  by (simp add: connect_error_def no_server_found_def)

lemma ValueError_not_nsf: "ValueError \<noteq> no_server_found"
  by (simp add: no_server_found_def)

lemma select_loop_char:
  "select_loop w k servers best = (l, r) \<Longrightarrow>
     (case r of
        Inr best' \<Rightarrow> map fst (probed l) = upload_hosts servers \<and> best' = foldl track best (probed l)
      | Inl e \<Rightarrow> e \<noteq> no_server_found \<and> length (probed l) < length (upload_hosts servers)
                  \<and> prefix (map fst (probed l)) (upload_hosts servers))"
proof (induction servers arbitrary: k best l r)
  case Nil
  then show ?case by auto
next
  case (Cons server rest)
  show ?case
  proof (cases "search_upload (snd server)")
    case None
    obtain l' r' where rec: "select_loop w k rest best = (l', r')" by (cases "select_loop w k rest best")
    from Cons.prems None rec have "l = (snd server, []) # l'" "r = r'" by auto
    with Cons.IH[OF rec] None show ?thesis by (auto simp: upload_hosts_Cons split: sum.splits)
  next
    case (Some h)
    obtain lp rp where pg: "ping w k h = (lp, rp)" by (cases "ping w k h")
    show ?thesis
    proof (cases rp)
      case (Inl e)
      from pg Inl have pe: "ping w k h = (lp, Inl e)" by simp
      have "lp = []" "e \<noteq> no_server_found"
        using ping_Inl[OF pe] connect_error_not_nsf[of h] ValueError_not_nsf by auto
      moreover from Cons.prems Some pg Inl have "l = (snd server, []) # lp" "r = Inl e" by auto
      ultimately show ?thesis using Some by (simp add: upload_hosts_Cons)
    next
      case (Inr ms)
      from ping_Inr pg Inr have lp: "lp = [(''Latency for %s - %d'', [S h, F ms])]" by auto
      let ?b = "if ms < fst best then (ms, h) else best"
      obtain l' r' where rec: "select_loop w (Suc k) rest ?b = (l', r')"
        by (cases "select_loop w (Suc k) rest ?b")
      from Cons.prems Some pg Inr rec have lr: "l = (snd server, []) # lp @ l'" "r = r'" by auto
      have tr: "track best (h, ms) = ?b" by (simp add: track_def)
      from Cons.IH[OF rec] lr lp Some tr show ?thesis
        by (auto simp: upload_hosts_Cons split: sum.splits)
    qed
  qed
qed

lemma foldl_track_char:
  "(foldl track b ps = b \<and> (\<forall>p\<in>set ps. fst b \<le> snd p)) \<or>
   (\<exists>i<length ps. foldl track b ps = (snd (ps ! i), fst (ps ! i)) \<and> snd (ps ! i) < fst b
        \<and> (\<forall>j<length ps. snd (ps ! i) \<le> snd (ps ! j)) \<and> (\<forall>j<i. snd (ps ! i) < snd (ps ! j)))"
  (is "?A ps \<or> ?B ps")
proof (induction ps rule: rev_induct)
  case Nil
  then show ?case by simp
next
  case (snoc p ps)
  define b' where "b' = foldl track b ps"
  have step: "foldl track b (ps @ [p]) = (if snd p < fst b' then (snd p, fst p) else b')"
    by (simp add: b'_def track_def)
  from snoc.IH show ?case
  proof
    assume A: "?A ps"
    then have b': "b' = b" and ge: "\<forall>q\<in>set ps. fst b \<le> snd q" by (auto simp: b'_def)
    show ?thesis
    proof (cases "snd p < fst b")
      case True
      have "\<forall>j<length ps. snd p < snd (ps ! j)"
        using ge True by (metis nth_mem less_le_trans)
      then have "?B (ps @ [p])"
        unfolding step b' using True
        by (intro exI[of _ "length ps"]) (auto simp: nth_append less_Suc_eq)
      then show ?thesis ..
    next
      case False
      then have "?A (ps @ [p])" unfolding step b' using ge by auto
      then show ?thesis ..
    qed
  next
    assume "?B ps"
    then obtain i where i: "i < length ps" "b' = (snd (ps ! i), fst (ps ! i))"
      "snd (ps ! i) < fst b" "\<forall>j<length ps. snd (ps ! i) \<le> snd (ps ! j)"
      "\<forall>j<i. snd (ps ! i) < snd (ps ! j)" unfolding b'_def by blast
    show ?thesis
    proof (cases "snd p < snd (ps ! i)")
      case True
      have "\<forall>j<length ps. snd p < snd (ps ! j)"
        using i(4) True by (metis less_le_trans)
      moreover have "snd p < fst b" using True i(3) by simp
      ultimately have "?B (ps @ [p])"
        unfolding step i(2) using True
        by (intro exI[of _ "length ps"]) (auto simp: nth_append less_Suc_eq)
      then show ?thesis ..
    next
      case False
      have "?B (ps @ [p])"
        unfolding step i(2) using i False
        by (intro exI[of _ i]) (auto simp: nth_append less_Suc_eq)
      then show ?thesis ..
    qed
  qed
qed

lemma select_server_loop:
  assumes "select_server w servers = (l, r)"
  obtains l0 r0 where "select_loop w 0 (take 10 servers) (999999, '''') = (l0, r0)"
    and "probed l = probed l0"
    and "r = (case r0 of Inl e \<Rightarrow> Inl e
              | Inr b \<Rightarrow> if snd b = [] then Inl no_server_found else Inr (snd b))"
proof -
  obtain l0 r0 where lr: "select_loop w 0 (take 10 servers) (999999, '''') = (l0, r0)"
    by (cases "select_loop w 0 (take 10 servers) (999999, '''')")
  have "probed l = probed l0"
    using assms lr by (auto simp: select_server_def split: sum.splits if_splits)
  moreover have "r = (case r0 of Inl e \<Rightarrow> Inl e
              | Inr b \<Rightarrow> if snd b = [] then Inl no_server_found else Inr (snd b))"
    using assms lr by (auto simp: select_server_def split: sum.splits if_splits)
  ultimately show ?thesis using lr that by blast
qed

lemma probed_hosts_nonempty:
  assumes "prefix (map fst ps) (upload_hosts servers)" and "p \<in> set ps"
  shows "fst p \<noteq> []"
proof -
  have "fst p \<in> set (map fst ps)" using assms(2) by simp
  then have "fst p \<in> set (upload_hosts servers)" using assms(1) set_mono_prefix by blast
  then show ?thesis by (rule upload_hosts_nonempty)
qed

lemma select_server_prefix:
  assumes "select_server w servers = (l, r)"
  shows "prefix (map fst (probed l)) (upload_hosts (take 10 servers))"
proof -
  from assms obtain l0 r0 where lr: "select_loop w 0 (take 10 servers) (999999, '''') = (l0, r0)"
    and p: "probed l = probed l0" by (rule select_server_loop)
  show ?thesis using select_loop_char[OF lr] p by (cases r0) auto
qed

lemma select_server_abort:
  assumes "select_server w servers = (l, Inl e)" and "e \<noteq> no_server_found"
  shows "length (probed l) < length (upload_hosts (take 10 servers))"
proof -
  from assms(1) obtain l0 r0 where lr: "select_loop w 0 (take 10 servers) (999999, '''') = (l0, r0)"
    and p: "probed l = probed l0"
    and r: "Inl e = (case r0 of Inl e \<Rightarrow> Inl e
              | Inr b \<Rightarrow> if snd b = [] then Inl no_server_found else Inr (snd b))"
    by (rule select_server_loop)
  show ?thesis using select_loop_char[OF lr] p r assms(2) by (cases r0) (auto split: if_splits)
qed

lemma select_server_complete:
  assumes "select_server w servers = (l, r)" and "r = Inl no_server_found \<or> r = Inr h"
  shows "map fst (probed l) = upload_hosts (take 10 servers)"
proof -
  from assms(1) obtain l0 r0 where lr: "select_loop w 0 (take 10 servers) (999999, '''') = (l0, r0)"
    and p: "probed l = probed l0"
    and r: "r = (case r0 of Inl e \<Rightarrow> Inl e
              | Inr b \<Rightarrow> if snd b = [] then Inl no_server_found else Inr (snd b))"
    by (rule select_server_loop)
  show ?thesis using select_loop_char[OF lr] p r assms(2) by (cases r0) (auto split: if_splits)
qed

lemma select_server_best:
  assumes "select_server w servers = (l, r)"
    and "map fst (probed l) = upload_hosts (take 10 servers)"
  shows "r = (if snd (foldl track (999999, '''') (probed l)) = [] then Inl no_server_found
              else Inr (snd (foldl track (999999, '''') (probed l))))"
proof -
  from assms(1) obtain l0 r0 where lr: "select_loop w 0 (take 10 servers) (999999, '''') = (l0, r0)"
    and p: "probed l = probed l0"
    and r: "r = (case r0 of Inl e \<Rightarrow> Inl e
              | Inr b \<Rightarrow> if snd b = [] then Inl no_server_found else Inr (snd b))"
    by (rule select_server_loop)
  show ?thesis
  proof (cases r0)
    case (Inl e)
    have "length (probed l0) = length (upload_hosts (take 10 servers))"
      using assms(2) p by (metis length_map)
    with select_loop_char[OF lr] Inl show ?thesis by auto
  next
    case (Inr b)
    with select_loop_char[OF lr] p r show ?thesis by auto
  qed
qed

lemma track_result:
  assumes "\<forall>p\<in>set ps. fst p \<noteq> []"
  shows "(snd (foldl track (999999, '''') ps) = [] \<longleftrightarrow> (\<forall>p\<in>set ps. 999999 \<le> snd p))"
    and "snd (foldl track (999999, '''') ps) \<noteq> [] \<Longrightarrow>
      \<exists>i<length ps. fst (ps ! i) = snd (foldl track (999999, '''') ps) \<and> snd (ps ! i) < 999999
        \<and> (\<forall>j<length ps. snd (ps ! i) \<le> snd (ps ! j)) \<and> (\<forall>j<i. snd (ps ! i) < snd (ps ! j))"
proof -
  let ?b = "(999999 :: real, '''')"
  from foldl_track_char[of ?b ps]
  consider (A) "foldl track ?b ps = ?b" "\<forall>p\<in>set ps. 999999 \<le> snd p"
    | (B) i where "i < length ps" "foldl track ?b ps = (snd (ps ! i), fst (ps ! i))"
        "snd (ps ! i) < 999999" "\<forall>j<length ps. snd (ps ! i) \<le> snd (ps ! j)"
        "\<forall>j<i. snd (ps ! i) < snd (ps ! j)"
    by auto
  note cases = this
  show "(snd (foldl track ?b ps) = [] \<longleftrightarrow> (\<forall>p\<in>set ps. 999999 \<le> snd p))"
  proof (cases rule: cases)
    case A
    then show ?thesis by simp
  next
    case B
    have "ps ! i \<in> set ps" using B(1) by simp
    then have "fst (ps ! i) \<noteq> []" "\<not> 999999 \<le> snd (ps ! i)" using assms B(3) by auto
    then show ?thesis using B(2) \<open>ps ! i \<in> set ps\<close> by auto
  qed
  show "\<exists>i<length ps. fst (ps ! i) = snd (foldl track ?b ps) \<and> snd (ps ! i) < 999999
        \<and> (\<forall>j<length ps. snd (ps ! i) \<le> snd (ps ! j)) \<and> (\<forall>j<i. snd (ps ! i) < snd (ps ! j))"
    if "snd (foldl track ?b ps) \<noteq> []"
  proof (cases rule: cases)
    case A
    then show ?thesis using that by simp
  next
    case B
    then show ?thesis by auto
  qed
qed

lemma select_loop_no_abort:
  assumes "\<forall>k h. probe_connects w k h \<and> (\<exists>i<5. 0 \<le> probe_elapsed w k h i)"
  shows "select_loop w k servers best \<noteq> (l, Inl e)"
proof (induction servers arbitrary: k best l)
  case Nil
  then show ?case by simp
next
  case (Cons server rest)
  show ?case
  proof (cases "search_upload (snd server)")
    case None
    obtain l' r' where rec: "select_loop w k rest best = (l', r')"
      by (cases "select_loop w k rest best")
    with Cons.IH[of k best l'] have "r' \<noteq> Inl e" by auto
    then show ?thesis using None rec by auto
  next
    case (Some h)
    from assms obtain lp ms where pg: "ping w k h = (lp, Inr ms)"
      using ping_completes by blast
    let ?b = "if ms < fst best then (ms, h) else best"
    obtain l' r' where rec: "select_loop w (Suc k) rest ?b = (l', r')"
      by (cases "select_loop w (Suc k) rest ?b")
    with Cons.IH[of "Suc k" ?b l'] have "r' \<noteq> Inl e" by auto
    then show ?thesis using Some pg rec by auto
  qed
qed

lemma select_server_no_abort:
  assumes "\<forall>k h. probe_connects w k h \<and> (\<exists>i<5. 0 \<le> probe_elapsed w k h i)"
    and "select_server w servers = (l, r)"
  shows "r = Inl no_server_found \<or> (\<exists>h. r = Inr h)"
proof -
  from assms(2) obtain l0 r0 where lr: "select_loop w 0 (take 10 servers) (999999, '''') = (l0, r0)"
    and r: "r = (case r0 of Inl e \<Rightarrow> Inl e
              | Inr b \<Rightarrow> if snd b = [] then Inl no_server_found else Inr (snd b))"
    by (rule select_server_loop)
  show ?thesis
  proof (cases r0)
    case (Inl e)
    with lr select_loop_no_abort[OF assms(1)] show ?thesis by blast
  next
    case (Inr b)
    with r show ?thesis by auto
  qed
qed

text \<open>
  The selector on any list of candidates: the host returned is that of the first probe of
  least latency, and \<^verbatim>\<open>Exception('Cannot find a test server')\<close> is raised exactly when
  the matching candidates among the first ten have all been probed and none is below
  999999.
\<close>

lemma select_server_first_minimum_any_list:
  assumes "select_server w servers = (l, r)"
  shows "(\<forall>h. r = Inr h \<longrightarrow>
            (\<exists>i<length (probed l). fst (probed l ! i) = h \<and> snd (probed l ! i) < 999999
               \<and> (\<forall>j<length (probed l). snd (probed l ! i) \<le> snd (probed l ! j))
               \<and> (\<forall>j<i. snd (probed l ! i) < snd (probed l ! j))))
       \<and> (r = Inl no_server_found \<longleftrightarrow>
            map fst (probed l) = upload_hosts (take 10 servers) \<and> (\<forall>p\<in>set (probed l). 999999 \<le> snd p))
       \<and> (upload_hosts (take 10 servers) = [] \<longrightarrow> r = Inl no_server_found)"
proof -
  let ?b = "foldl track (999999, '''') (probed l)"
  have pre: "prefix (map fst (probed l)) (upload_hosts (take 10 servers))"
    by (rule select_server_prefix[OF assms])
  then have ne: "\<forall>p\<in>set (probed l). fst p \<noteq> []"
    using probed_hosts_nonempty by blast
  have ret: "\<exists>i<length (probed l). fst (probed l ! i) = h \<and> snd (probed l ! i) < 999999
               \<and> (\<forall>j<length (probed l). snd (probed l ! i) \<le> snd (probed l ! j))
               \<and> (\<forall>j<i. snd (probed l ! i) < snd (probed l ! j))" if "r = Inr h" for h
  proof -
    have all: "map fst (probed l) = upload_hosts (take 10 servers)"
      using select_server_complete[OF assms] that by blast
    from select_server_best[OF assms all] that have "snd ?b \<noteq> []" "h = snd ?b"
      by (auto split: if_splits)
    with track_result(2)[OF ne] show ?thesis by simp
  qed
  have fail: "r = Inl no_server_found \<longleftrightarrow>
      map fst (probed l) = upload_hosts (take 10 servers) \<and> (\<forall>p\<in>set (probed l). 999999 \<le> snd p)"
  proof
    assume f: "r = Inl no_server_found"
    then have all: "map fst (probed l) = upload_hosts (take 10 servers)"
      using select_server_complete[OF assms] by blast
    from select_server_best[OF assms all] f have "snd ?b = []"
      by (auto split: if_splits)
    with track_result(1)[OF ne] all
    show "map fst (probed l) = upload_hosts (take 10 servers) \<and> (\<forall>p\<in>set (probed l). 999999 \<le> snd p)"
      by simp
  next
    assume a: "map fst (probed l) = upload_hosts (take 10 servers) \<and> (\<forall>p\<in>set (probed l). 999999 \<le> snd p)"
    then have "snd ?b = []" using track_result(1)[OF ne] by simp
    with select_server_best[OF assms] a show "r = Inl no_server_found" by simp
  qed
  have none: "r = Inl no_server_found" if "upload_hosts (take 10 servers) = []"
  proof -
    have "probed l = []" using pre that by simp
    then show ?thesis using fail that by simp
  qed
  from ret fail none show ?thesis by blast
qed

text \<open>
  The selector on any list of candidates: the hosts probed are an initial part of the
  matching ones among the first ten of the list, and all of them when every probe
  completes.
\<close>

lemma select_server_probes_any_list:
  assumes "select_server w servers = (l, r)"
  shows "length (probed l) \<le> 10
       \<and> length (upload_hosts (take 10 servers)) \<le> 10
       \<and> prefix (map fst (probed l)) (upload_hosts (take 10 servers))
       \<and> ((\<forall>k h. probe_connects w k h \<and> (\<exists>i<5. 0 \<le> probe_elapsed w k h i))
            \<longrightarrow> map fst (probed l) = upload_hosts (take 10 servers))
       \<and> (length servers \<le> 10 \<longrightarrow> upload_hosts (take 10 servers) = upload_hosts servers)"
proof -
  have pre: "prefix (map fst (probed l)) (upload_hosts (take 10 servers))"
    by (rule select_server_prefix[OF assms])
  then have "length (map fst (probed l)) \<le> length (upload_hosts (take 10 servers))"
    by (rule prefix_length_le)
  also have "\<dots> \<le> length (take 10 servers)" by (rule length_upload_hosts)
  also have "\<dots> \<le> 10" by simp
  finally have len: "length (probed l) \<le> 10" by simp
  have all: "map fst (probed l) = upload_hosts (take 10 servers)"
    if "\<forall>k h. probe_connects w k h \<and> (\<exists>i<5. 0 \<le> probe_elapsed w k h i)"
    using select_server_no_abort[OF that assms] select_server_complete[OF assms] by blast
  have cand: "length (upload_hosts (take 10 servers)) \<le> 10"
    using length_upload_hosts[of "take 10 servers"] by simp
  from len cand pre all show ?thesis by simp
qed

text \<open>
  C10. Selection commits only to a candidate whose measured latency is below the initial
  999999: a host returned has a probe below 999999, and when every latency probed is
  999999 or more selection fails, although candidates matched and were probed; the failure
  is \<^verbatim>\<open>Exception('Cannot find a test server')\<close> when every probe has completed.
\<close>

theorem select_server_sentinel:
  assumes "select_server w servers = (l, r)"
  shows "(\<forall>h. r = Inr h \<longrightarrow> (\<exists>p\<in>set (probed l). fst p = h \<and> snd p < 999999))
       \<and> ((\<forall>p\<in>set (probed l). 999999 \<le> snd p) \<longrightarrow> (\<exists>e. r = Inl e))
       \<and> (map fst (probed l) = upload_hosts (take 10 servers)
            \<and> (\<forall>p\<in>set (probed l). 999999 \<le> snd p) \<longrightarrow> r = Inl no_server_found)
       \<and> ((\<forall>k h. probe_connects w k h \<and> (\<exists>i<5. 0 \<le> probe_elapsed w k h i))
            \<and> (\<forall>p\<in>set (probed l). 999999 \<le> snd p) \<longrightarrow> r = Inl no_server_found)"
proof -
  let ?b = "foldl track (999999, '''') (probed l)"
  have pre: "prefix (map fst (probed l)) (upload_hosts (take 10 servers))"
    by (rule select_server_prefix[OF assms])
  then have ne: "\<forall>p\<in>set (probed l). fst p \<noteq> []"
    using probed_hosts_nonempty by blast
  have commit: "\<exists>p\<in>set (probed l). fst p = h \<and> snd p < 999999" if "r = Inr h" for h
  proof -
    have all: "map fst (probed l) = upload_hosts (take 10 servers)"
      using select_server_complete[OF assms] that by blast
    from select_server_best[OF assms all] that have "snd ?b \<noteq> []" "h = snd ?b"
      by (auto split: if_splits)
    with track_result(2)[OF ne] obtain i where "i < length (probed l)"
      "fst (probed l ! i) = h" "snd (probed l ! i) < 999999" by auto
    then show ?thesis using nth_mem by blast
  qed
  then have fails: "\<exists>e. r = Inl e" if "\<forall>p\<in>set (probed l). 999999 \<le> snd p"
    using that by (cases r) (auto simp: not_le[symmetric])
  have nsf: "r = Inl no_server_found"
    if "\<forall>k h. probe_connects w k h \<and> (\<exists>i<5. 0 \<le> probe_elapsed w k h i)"
      and "\<forall>p\<in>set (probed l). 999999 \<le> snd p"
    using select_server_no_abort[OF that(1) assms] fails[OF that(2)] by auto
  have nsf': "r = Inl no_server_found"
    if "map fst (probed l) = upload_hosts (take 10 servers)"
      and "\<forall>p\<in>set (probed l). 999999 \<le> snd p"
  proof -
    have "snd ?b = []" using track_result(1)[OF ne] that(2) by simp
    with select_server_best[OF assms that(1)] show ?thesis by simp
  qed
  from commit fails nsf nsf' show ?thesis by blast
qed

theorem select_server_sentinel_witness:
  "select_server \<lparr>probe_connects = \<lambda>k server. True, probe_elapsed = \<lambda>k server i. 999999 / 1000\<rparr>
     [(1, ''http://a/speedtest/upload.php''), (2, ''http://b/speedtest/upload.php'')]
   = ([(''http://a/speedtest/upload.php'', []), (''Latency for %s - %d'', [S ''a'', F 999999]),
       (''http://b/speedtest/upload.php'', []), (''Latency for %s - %d'', [S ''b'', F 999999])],
      Inl no_server_found)
   \<and> probed [(''http://a/speedtest/upload.php'', []), (''Latency for %s - %d'', [S ''a'', F 999999]),
       (''http://b/speedtest/upload.php'', []), (''Latency for %s - %d'', [S ''b'', F 999999])]
     = [(''a'', 999999), (''b'', 999999)]"
proof -
  let ?w = "\<lparr>probe_connects = \<lambda>k server. True, probe_elapsed = \<lambda>k server i. 999999 / 1000\<rparr>"
  let ?s = "[(1, ''http://a/speedtest/upload.php''), (2, ''http://b/speedtest/upload.php'')]"
  let ?l = "[(''http://a/speedtest/upload.php'', []), (''Latency for %s - %d'', [S ''a'', F 999999]),
       (''http://b/speedtest/upload.php'', []), (''Latency for %s - %d'', [S ''b'', F 999999])]"
  obtain l r where lr: "select_server ?w ?s = (l, r)"
    by (cases "select_server ?w ?s")
  have l: "l = ?l"
    using lr by (simp add: select_server_def ping_def list_remove_def Let_def upt_rec match_upload_def
        split: if_splits)
  have p: "probed ?l = [(''a'', 999999), (''b'', 999999)]"
    by simp
  have c: "\<forall>k h. probe_connects ?w k h \<and> (\<exists>i<5. 0 \<le> probe_elapsed ?w k h i)"
    by (auto intro: exI[of _ 0])
  have "r = Inl no_server_found"
    using select_server_sentinel[OF lr] c unfolding l p by simp
  with lr l p show ?thesis by simp
qed

section \<open>\<^verbatim>\<open>calc_distance\<close>: the planar distance\<close>

lemma calc_distance_Inr:
  "calc_distance float location server = Inr distance \<Longrightarrow>
     \<exists>my_lat my_lon s_lat s_lon.
        float (fst (snd location)) = Some my_lat \<and> float (snd (snd location)) = Some my_lon
        \<and> float (fst (snd server)) = Some s_lat \<and> float (snd (snd server)) = Some s_lon
        \<and> distance = sqrt ((s_lat - my_lat)\<^sup>2 + (s_lon - my_lon)\<^sup>2)"
  by (auto simp: calc_distance_def split: option.splits)

lemma rank_servers_distances:
  "rank_servers float location servers acc = Inr ranked \<Longrightarrow> p \<in> set ranked \<Longrightarrow>
     p \<in> set acc \<or>
     (\<exists>server\<in>set servers. calc_distance float location server = Inr (fst p) \<and> snd p = fst server)"
proof (induction servers arbitrary: acc)
  case Nil
  then show ?case by simp
next
  case (Cons server rest)
  from Cons.prems(1) obtain distance where
    d: "calc_distance float location server = Inr distance"
    and r: "rank_servers float location rest (insort_left (distance, fst server) acc) = Inr ranked"
    by (auto split: sum.splits)
  have "set (insort_left (distance, fst server) acc) = insert (distance, fst server) (set acc)"
    unfolding insort_left_def
    by (metis append_take_drop_id list.simps(15) set_append takeWhile_dropWhile_id Un_insert_right)
  with Cons.IH[OF r Cons.prems(2)] d show ?case by auto
qed

text \<open>
  C7. For a client location and a server candidate whose latitude and longitude are
  numeric, \<^verbatim>\<open>calc_distance\<close> is the planar distance
  \<open>sqrt ((s_lat - my_lat)\<^sup>2 + (s_lon - my_lon)\<^sup>2)\<close> on the degrees as they are read, and every
  distance in the ranked list of the selector is this value for its candidate.
\<close>

theorem calc_distance_euclidean:
  assumes "float (fst (snd location)) = Some my_lat" and "float (snd (snd location)) = Some my_lon"
    and "float (fst (snd server)) = Some s_lat" and "float (snd (snd server)) = Some s_lon"
  shows "calc_distance float location server = Inr (sqrt ((s_lat - my_lat)\<^sup>2 + (s_lon - my_lon)\<^sup>2))
       \<and> (\<forall>servers ranked. server \<in> set servers
             \<and> rank_servers float location servers [] = Inr ranked \<longrightarrow>
             (sqrt ((s_lat - my_lat)\<^sup>2 + (s_lon - my_lon)\<^sup>2), fst server) \<in> set ranked)"
proof -
  have d: "calc_distance float location server = Inr (sqrt ((s_lat - my_lat)\<^sup>2 + (s_lon - my_lon)\<^sup>2))"
    using assms by (simp add: calc_distance_def)
  have ins: "x \<in> set (insort_left x acc)" for x acc
    by (simp add: insort_left_def)
  have keep: "set acc \<subseteq> set (insort_left x acc)" for x acc
    unfolding insort_left_def
    by (metis append_take_drop_id list.simps(15) set_append takeWhile_dropWhile_id Un_insert_right
        subset_insertI)
  have mono: "rank_servers float location servers acc = Inr ranked \<Longrightarrow> set acc \<subseteq> set ranked"
    for servers acc ranked
  proof (induction servers arbitrary: acc)
    case Nil
    then show ?case by simp
  next
    case (Cons s rest)
    from Cons.prems obtain distance where
      r: "rank_servers float location rest (insort_left (distance, fst s) acc) = Inr ranked"
      by (auto split: sum.splits)
    from Cons.IH[OF r] keep show ?case by blast
  qed
  have mem: "rank_servers float location servers acc = Inr ranked \<Longrightarrow> server \<in> set servers \<Longrightarrow>
      (sqrt ((s_lat - my_lat)\<^sup>2 + (s_lon - my_lon)\<^sup>2), fst server) \<in> set ranked"
    for servers acc ranked
  proof (induction servers arbitrary: acc)
    case Nil
    then show ?case by simp
  next
    case (Cons s rest)
    from Cons.prems(1) obtain distance where
      ds: "calc_distance float location s = Inr distance"
      and r: "rank_servers float location rest (insort_left (distance, fst s) acc) = Inr ranked"
      by (auto split: sum.splits)
    show ?case
    proof (cases "server = s")
      case True
      with d ds have "distance = sqrt ((s_lat - my_lat)\<^sup>2 + (s_lon - my_lon)\<^sup>2)" by simp
      with mono[OF r] ins True show ?thesis by blast
    next
      case False
      with Cons.prems(2) have "server \<in> set rest" by simp
      with Cons.IH[OF r] show ?thesis by simp
    qed
  qed
  from d mem show ?thesis by blast
qed

theorem calc_distance_euclidean_witness:
  "calc_distance (\<lambda>s. if s = ''1'' then Some 1 else if s = ''2'' then Some 2
                       else if s = ''4'' then Some 4 else if s = ''6'' then Some 6 else None)
      (''192.0.2.1'', ''1'', ''2'') (''http://a/speedtest/upload.php'', ''4'', ''6'') = Inr 5"
proof -
  let ?float = "\<lambda>s. if s = ''1'' then Some (1::real) else if s = ''2'' then Some 2
                       else if s = ''4'' then Some 4 else if s = ''6'' then Some 6 else None"
  have "sqrt ((4 - 1)\<^sup>2 + (6 - 2)\<^sup>2) = sqrt (5\<^sup>2)"
    by (simp add: power2_eq_square)
  also have "\<dots> = 5"
    by (simp del: power2_eq_square)
  finally have s: "sqrt ((4 - 1)\<^sup>2 + (6 - 2)\<^sup>2) = (5::real)" .
  have "calc_distance ?float (''192.0.2.1'', ''1'', ''2'') (''http://a/speedtest/upload.php'', ''4'', ''6'')
      = Inr (sqrt ((4 - 1)\<^sup>2 + (6 - 2)\<^sup>2))"
    using calc_distance_euclidean[of ?float "(''192.0.2.1'', ''1'', ''2'')" 1 2
        "(''http://a/speedtest/upload.php'', ''4'', ''6'')" 4 6]
    by simp
  with s show ?thesis by simp
qed

text \<open>
  The distance is not the one along a great circle: the points at longitude 0 and at
  longitude 360 of the equator are the same point of the sphere, and their planar
  distance is 360.
\<close>

lemma calc_distance_not_great_circle:
  "calc_distance (\<lambda>s. if s = ''0'' then Some 0 else if s = ''360'' then Some 360 else None)
      (''192.0.2.1'', ''0'', ''0'') (''http://a/speedtest/upload.php'', ''0'', ''360'') = Inr 360
   \<and> great_circle R 0 0 0 360 = 0"
proof -
  have "sqrt ((360::real)\<^sup>2) = 360"
    by (simp del: power2_eq_square)
  then have "calc_distance (\<lambda>s. if s = ''0'' then Some 0 else if s = ''360'' then Some 360 else None)
      (''192.0.2.1'', ''0'', ''0'') (''http://a/speedtest/upload.php'', ''0'', ''360'') = Inr 360"
    by (simp add: calc_distance_def)
  moreover have "great_circle R 0 0 0 360 = 0"
    by (simp add: great_circle_def)
  ultimately show ?thesis by simp
qed

section \<open>\<^verbatim>\<open>chooseserver\<close>: a reply without coordinates\<close>

lemma search_client_None:
  "search_client s = None \<longleftrightarrow> (\<forall>t\<in>set (suffixes s). match_tag ''<client ip='' t = None)"
proof (induction s)
  case Nil
  show ?case
    by (simp add: match_tag_def)
next
  case (Cons c cs)
  then show ?case
    by (auto split: option.splits)
qed

lemma search_client_example:
  "search_client (''<settings><client ip='' @ [dq] @ ''192.0.2.1'' @ [dq] @ '' lat='' @ [dq] @ ''50.1''
                    @ [dq] @ '' lon='' @ [dq] @ ''8.6'' @ [dq] @ '' isp='' @ [dq] @ ''x'' @ [dq] @ ''/>'')
     = Some (''192.0.2.1'', ''50.1'', ''8.6'')"
  by (simp add: match_tag_def dq_def)

text \<open>
  A run of the whole selector: the nearer candidate is probed first, the candidate of
  lower latency is returned.
\<close>

lemma findall_example:
  "findall_server 0
      (''<servers><server url='' @ [dq] @ ''http://far/speedtest/upload.php'' @ [dq] @ '' lat='' @ [dq] @ ''10'' @ [dq]
         @ '' lon='' @ [dq] @ ''2'' @ [dq] @ '' name='' @ [dq] @ ''F'' @ [dq] @ ''/>''
         @ ''<server url='' @ [dq] @ ''http://near/speedtest/upload.php'' @ [dq] @ '' lat='' @ [dq] @ ''1'' @ [dq]
         @ '' lon='' @ [dq] @ ''3'' @ [dq] @ ''/></servers>'')
   = [(''http://far/speedtest/upload.php'', ''10'', ''2''), (''http://near/speedtest/upload.php'', ''1'', ''3'')]"
  by (simp add: match_tag_def dq_def)

lemma chooseserver_example:
  "chooseserver
     (\<lambda>s. if s = ''1'' then Some 1 else if s = ''2'' then Some 2 else if s = ''3'' then Some 3
           else if s = ''10'' then Some 10 else None)
     \<lparr>dir_connects = True,
       config_reply = ''<client ip='' @ [dq] @ ''192.0.2.1'' @ [dq] @ '' lat='' @ [dq] @ ''1'' @ [dq]
         @ '' lon='' @ [dq] @ ''2'' @ [dq] @ ''/>'',
       servers_reply = ''<server url='' @ [dq] @ ''http://far/speedtest/upload.php'' @ [dq] @ '' lat='' @ [dq] @ ''10'' @ [dq]
         @ '' lon='' @ [dq] @ ''2'' @ [dq] @ ''/>''
         @ ''<server url='' @ [dq] @ ''http://near/speedtest/upload.php'' @ [dq] @ '' lat='' @ [dq] @ ''1'' @ [dq]
         @ '' lon='' @ [dq] @ ''3'' @ [dq] @ ''/>''\<rparr>
     \<lparr>probe_connects = \<lambda>k server. True,
       probe_elapsed = \<lambda>k server i. if server = ''far'' then 1 / 100 else 2 / 100\<rparr>
   = ([(''Your IP: 192.0.2.1'' @ [CHR 0x0A] @ ''Your latitude: 1'' @ [CHR 0x0A] @ ''Your longitude: 2'', []),
       (''http://near/speedtest/upload.php'', []), (''Latency for %s - %d'', [S ''near'', F 20]),
       (''http://far/speedtest/upload.php'', []), (''Latency for %s - %d'', [S ''far'', F 10]),
       (''Best server: %s'', [S ''far''])],
      Inr (Some ''far''))"
  by (simp add: chooseserver_def match_tag_def dq_def calc_distance_def insort_left_def tuple_less_def
      location_message_def select_server_def ping_def list_remove_def Let_def upt_rec match_upload_def)

lemma strip_prefix_Some: "strip_prefix p s = Some r \<longleftrightarrow> s = p @ r"
  by (induction p s rule: strip_prefix.induct) auto

lemma match_tag_prefix: "match_tag opening t = Some m \<Longrightarrow> prefix (opening @ [dq]) t"
  by (auto simp: match_tag_def strip_prefix_Some split: option.splits)

lemma search_client_without_tag:
  assumes "\<not> sublist (''<client ip='' @ [dq]) s"
  shows "search_client s = None"
proof -
  have "match_tag ''<client ip='' t = None" if "t \<in> set (suffixes s)" for t
  proof (rule ccontr)
    assume "match_tag ''<client ip='' t \<noteq> None"
    then obtain m where "match_tag ''<client ip='' t = Some m" by blast
    then have "prefix (''<client ip='' @ [dq]) t" by (rule match_tag_prefix)
    moreover have "suffix t s" using that by (simp add: in_set_suffixes)
    ultimately have "sublist (''<client ip='' @ [dq]) s"
      by (meson prefix_imp_sublist sublist_order.order_trans suffix_imp_sublist)
    with assms show False by simp
  qed
  then show ?thesis by (simp add: search_client_None)
qed

text \<open>
  C4 (as amended). When the reply to the configuration request has no match for the
  client tag with its \<^verbatim>\<open>ip\<close>, \<^verbatim>\<open>lat\<close> and \<^verbatim>\<open>lon\<close> attributes, as when the opening of
  the tag up to the quote of \<^verbatim>\<open>ip\<close> does not occur in it, \<^verbatim>\<open>chooseserver\<close> logs
  \<^verbatim>\<open>Failed to retrieve coordinates\<close> and returns \<^verbatim>\<open>None\<close> at once: it raises nothing,
  reads no server list and probes no candidate. It returns \<^verbatim>\<open>None\<close> on no other path.
\<close>

theorem chooseserver_no_coordinates:
  assumes "dir_connects d"
  shows "(search_client (config_reply d) = None \<longrightarrow>
            chooseserver float d w = ([(''Failed to retrieve coordinates'', [])], Inr None)
            \<and> probed (fst (chooseserver float d w)) = [])
       \<and> (\<not> sublist (''<client ip='' @ [dq]) (config_reply d) \<longrightarrow>
            search_client (config_reply d) = None)
       \<and> (snd (chooseserver float d w) = Inr None \<longrightarrow> search_client (config_reply d) = None)"
proof -
  have none: "chooseserver float d w = ([(''Failed to retrieve coordinates'', [])], Inr None)
            \<and> probed (fst (chooseserver float d w)) = []"
    if "search_client (config_reply d) = None"
    using assms that by (simp add: chooseserver_def)
  have tag: "search_client (config_reply d) = None"
    if "\<not> sublist (''<client ip='' @ [dq]) (config_reply d)"
    using that by (rule search_client_without_tag)
  have only: "search_client (config_reply d) = None" if r: "snd (chooseserver float d w) = Inr None"
  proof (rule ccontr)
    assume "search_client (config_reply d) \<noteq> None"
    then obtain location where loc: "search_client (config_reply d) = Some location" by blast
    show False
    proof (cases "rank_servers float location (findall_server 0 (servers_reply d)) []")
      case (Inl e)
      with assms loc r show False by (simp add: chooseserver_def)
    next
      case (Inr ranked)
      obtain l res where s: "select_server w ranked = (l, res)" by (cases "select_server w ranked")
      with assms loc Inr r show False by (cases res) (simp_all add: chooseserver_def)
    qed
  qed
  from none tag only show ?thesis by blast
qed

theorem chooseserver_no_coordinates_witness:
  "dir_connects \<lparr>dir_connects = True, config_reply = ''<settings><client isp=none/></settings>'',
                 servers_reply = ''''\<rparr>
   \<and> search_client ''<settings><client isp=none/></settings>'' = None
   \<and> chooseserver (\<lambda>s. None)
        \<lparr>dir_connects = True, config_reply = ''<settings><client isp=none/></settings>'',
          servers_reply = ''''\<rparr>
        \<lparr>probe_connects = \<lambda>k server. True, probe_elapsed = \<lambda>k server i. 1 / 100\<rparr>
      = ([(''Failed to retrieve coordinates'', [])], Inr None)"
proof -
  let ?d = "\<lparr>dir_connects = True, config_reply = ''<settings><client isp=none/></settings>'',
             servers_reply = ''''\<rparr>"
  have c: "dir_connects ?d"
    by simp
  have s: "search_client ''<settings><client isp=none/></settings>'' = None"
    by (simp add: match_tag_def dq_def)
  then have s': "search_client (config_reply ?d) = None"
    by simp
  from chooseserver_no_coordinates[OF c] s' c s show ?thesis
    by blast
qed

text \<open>
  The claim as it is written fails: on such a reply the result is the value \<^verbatim>\<open>None\<close>, not
  an exception.
\<close>

theorem chooseserver_no_coordinates_counterexample:
  "snd (chooseserver (\<lambda>s. None)
          \<lparr>dir_connects = True, config_reply = ''<settings></settings>'', servers_reply = ''''\<rparr>
          \<lparr>probe_connects = \<lambda>k server. True, probe_elapsed = \<lambda>k server i. 1 / 100\<rparr>)
     = Inr None"
  by (simp add: chooseserver_def match_tag_def dq_def)

section \<open>\<^verbatim>\<open>chooseserver\<close>: the ten nearest candidates\<close>

lemma tuple_less_irrefl: "\<not> tuple_less a a"
  by (simp add: tuple_less_def)

lemma tuple_less_trans: "tuple_less a b \<Longrightarrow> tuple_less b c \<Longrightarrow> tuple_less a c"
  by (auto simp: tuple_less_def)

lemma tuple_less_total: "tuple_less a b \<or> a = b \<or> tuple_less b a"
  by (auto simp: tuple_less_def prod_eq_iff)

lemma insort_left_Nil: "insort_left x [] = [x]"
  by (simp add: insort_left_def)

lemma insort_left_Cons:
  "insort_left x (y # ys) = (if tuple_less y x then y # insort_left x ys else x # y # ys)"
  by (simp add: insort_left_def)

lemma set_insort_left: "set (insort_left x a) = insert x (set a)"
  by (induction a) (auto simp: insort_left_Nil insort_left_Cons)

lemma mset_insort_left: "mset (insort_left x a) = add_mset x (mset a)"
  by (induction a) (auto simp: insort_left_Nil insort_left_Cons)

lemma sorted_insort_left:
  assumes "sorted_wrt (\<lambda>a b. \<not> tuple_less b a) a"
  shows "sorted_wrt (\<lambda>a b. \<not> tuple_less b a) (insort_left x a)"
  using assms
proof (induction a)
  case Nil
  then show ?case by (simp add: insort_left_Nil)
next
  case (Cons y ys)
  show ?case
  proof (cases "tuple_less y x")
    case True
    have "\<not> tuple_less x y" using True tuple_less_trans tuple_less_irrefl by blast
    then show ?thesis
      using True Cons by (auto simp: insort_left_Cons set_insort_left)
  next
    case False
    have "\<not> tuple_less z x" if "z \<in> set ys" for z
    proof
      assume zx: "tuple_less z x"
      from Cons.prems that have "\<not> tuple_less z y" by simp
      with tuple_less_total[of z y] have "z = y \<or> tuple_less y z" by blast
      with zx False tuple_less_trans show False by blast
    qed
    then show ?thesis
      using False Cons.prems by (auto simp: insort_left_Cons)
  qed
qed

lemma rank_servers_sorted:
  "rank_servers float location servers acc = Inr ranked \<Longrightarrow>
     sorted_wrt (\<lambda>a b. \<not> tuple_less b a) acc \<Longrightarrow>
     sorted_wrt (\<lambda>a b. \<not> tuple_less b a) ranked"
proof (induction servers arbitrary: acc)
  case Nil
  then show ?case by simp
next
  case (Cons server rest)
  from Cons.prems(1) obtain distance where
    r: "rank_servers float location rest (insort_left (distance, fst server) acc) = Inr ranked"
    by (auto split: sum.splits)
  show ?case
    by (rule Cons.IH[OF r]) (rule sorted_insort_left[OF Cons.prems(2)])
qed

lemma rank_servers_mset:
  "rank_servers float location servers acc = Inr ranked \<Longrightarrow>
     \<exists>ds. length ds = length servers
        \<and> (\<forall>i<length servers. calc_distance float location (servers ! i) = Inr (ds ! i))
        \<and> mset ranked = mset acc + mset (zip ds (map fst servers))"
proof (induction servers arbitrary: acc)
  case Nil
  then show ?case by simp
next
  case (Cons server rest)
  from Cons.prems obtain distance where
    d: "calc_distance float location server = Inr distance"
    and r: "rank_servers float location rest (insort_left (distance, fst server) acc) = Inr ranked"
    by (auto split: sum.splits)
  from Cons.IH[OF r] obtain ds where ds: "length ds = length rest"
    "\<forall>i<length rest. calc_distance float location (rest ! i) = Inr (ds ! i)"
    "mset ranked = mset (insort_left (distance, fst server) acc) + mset (zip ds (map fst rest))"
    by blast
  have "length (distance # ds) = length (server # rest)" using ds(1) by simp
  moreover have "\<forall>i<length (server # rest).
      calc_distance float location ((server # rest) ! i) = Inr ((distance # ds) ! i)"
    using d ds(2) by (auto simp: nth_Cons split: nat.splits)
  moreover have "mset ranked = mset acc + mset (zip (distance # ds) (map fst (server # rest)))"
    using ds(3) by (simp add: mset_insort_left)
  ultimately show ?case by blast
qed

lemma sorted_distances:
  assumes "sorted_wrt (\<lambda>a b. \<not> tuple_less b a) ranked"
  shows "sorted (map fst ranked)"
proof -
  have "sorted_wrt (\<lambda>a b. fst a \<le> fst b) ranked"
    by (rule sorted_wrt_mono_rel[OF _ assms]) (auto simp: tuple_less_def)
  then show ?thesis by (simp add: sorted_map)
qed

lemma nearest_first:
  assumes "sorted (map fst ranked)"
  shows "\<forall>a\<in>set (take n ranked). \<forall>b\<in>set (drop n ranked). fst a \<le> fst b"
proof -
  have "sorted (map fst (take n ranked) @ map fst (drop n ranked))"
    using assms by (simp add: take_map[symmetric] drop_map[symmetric])
  then show ?thesis by (auto simp: sorted_append)
qed

lemma rank_servers_ranking:
  assumes "rank_servers float location servers [] = Inr ranked"
  shows "sorted_wrt (\<lambda>a b. \<not> tuple_less b a) ranked
       \<and> sorted (map fst ranked)
       \<and> (\<forall>a\<in>set (take n ranked). \<forall>b\<in>set (drop n ranked). fst a \<le> fst b)
       \<and> (\<exists>ds. length ds = length servers
              \<and> (\<forall>i<length servers. calc_distance float location (servers ! i) = Inr (ds ! i))
              \<and> mset ranked = mset (zip ds (map fst servers)))"
proof -
  have s: "sorted_wrt (\<lambda>a b. \<not> tuple_less b a) ranked"
    by (rule rank_servers_sorted[OF assms]) simp
  then have d: "sorted (map fst ranked)"
    by (rule sorted_distances)
  then have n: "\<forall>a\<in>set (take n ranked). \<forall>b\<in>set (drop n ranked). fst a \<le> fst b"
    by (rule nearest_first)
  from rank_servers_mset[OF assms] have
    "\<exists>ds. length ds = length servers
        \<and> (\<forall>i<length servers. calc_distance float location (servers ! i) = Inr (ds ! i))
        \<and> mset ranked = mset (zip ds (map fst servers))"
    by simp
  with s d n show ?thesis by blast
qed

lemma chooseserver_select:
  assumes "dir_connects d"
    and "search_client (config_reply d) = Some location"
    and "rank_servers float location (findall_server 0 (servers_reply d)) [] = Inr ranked"
    and "chooseserver float d w = (l, r)"
  obtains l' r' where "select_server w ranked = (l', r')" and "probed l = probed l'"
    and "r = (case r' of Inl e \<Rightarrow> Inl e | Inr h \<Rightarrow> Inr (Some h))"
proof -
  obtain l' r' where s: "select_server w ranked = (l', r')"
    by (cases "select_server w ranked")
  have "l = (location_message location, []) # l'"
    using assms s by (cases r') (simp_all add: chooseserver_def)
  then have "probed l = probed l'"
    by simp
  moreover have "r = (case r' of Inl e \<Rightarrow> Inl e | Inr h \<Rightarrow> Inr (Some h))"
    using assms s by (cases r') (simp_all add: chooseserver_def)
  ultimately show ?thesis using s that by blast
qed

text \<open>
  C2 (as amended). The ranked list holds every candidate of the directory with its distance,
  in ascending order of distance, so its first ten are the ten nearest. When selection
  returns a host, it is the host of the first probe whose latency is the least of all the
  latencies probed (a later probe replaces the best one only when it is strictly less),
  and that latency is below the initial 999999. Selection raises
  \<^verbatim>\<open>Exception('Cannot find a test server')\<close> exactly when every candidate among the ten
  nearest whose URL matches has been probed and no latency is below 999999; so it does
  when none of the ten nearest matches, and when the list is empty.
\<close>

theorem chooseserver_first_minimum:
  assumes "dir_connects d"
    and "search_client (config_reply d) = Some location"
    and "rank_servers float location (findall_server 0 (servers_reply d)) [] = Inr ranked"
    and "chooseserver float d w = (l, r)"
  shows "sorted (map fst ranked)
       \<and> (\<forall>a\<in>set (take 10 ranked). \<forall>b\<in>set (drop 10 ranked). fst a \<le> fst b)
       \<and> (\<exists>ds. length ds = length (findall_server 0 (servers_reply d))
              \<and> (\<forall>i<length (findall_server 0 (servers_reply d)).
                    calc_distance float location (findall_server 0 (servers_reply d) ! i) = Inr (ds ! i))
              \<and> mset ranked = mset (zip ds (map fst (findall_server 0 (servers_reply d)))))
       \<and> (\<forall>h. r = Inr (Some h) \<longrightarrow>
            (\<exists>i<length (probed l). fst (probed l ! i) = h \<and> snd (probed l ! i) < 999999
               \<and> (\<forall>j<length (probed l). snd (probed l ! i) \<le> snd (probed l ! j))
               \<and> (\<forall>j<i. snd (probed l ! i) < snd (probed l ! j))))
       \<and> (r = Inl no_server_found \<longleftrightarrow>
            map fst (probed l) = upload_hosts (take 10 ranked) \<and> (\<forall>p\<in>set (probed l). 999999 \<le> snd p))
       \<and> (upload_hosts (take 10 ranked) = [] \<longrightarrow> r = Inl no_server_found)"
proof -
  from assms obtain l' r' where s: "select_server w ranked = (l', r')"
    and p: "probed l = probed l'"
    and r: "r = (case r' of Inl e \<Rightarrow> Inl e | Inr h \<Rightarrow> Inr (Some h))"
    by (rule chooseserver_select)
  note sel = select_server_first_minimum_any_list[OF s]
  have ret: "\<exists>i<length (probed l). fst (probed l ! i) = h \<and> snd (probed l ! i) < 999999
               \<and> (\<forall>j<length (probed l). snd (probed l ! i) \<le> snd (probed l ! j))
               \<and> (\<forall>j<i. snd (probed l ! i) < snd (probed l ! j))" if "r = Inr (Some h)" for h
  proof -
    from that r have "r' = Inr h" by (cases r') auto
    with sel show ?thesis unfolding p by blast
  qed
  have "r = Inl no_server_found \<longleftrightarrow> r' = Inl no_server_found"
    using r by (cases r') auto
  then have fail: "r = Inl no_server_found \<longleftrightarrow>
      map fst (probed l) = upload_hosts (take 10 ranked) \<and> (\<forall>p\<in>set (probed l). 999999 \<le> snd p)"
    using sel unfolding p by blast
  have none: "r = Inl no_server_found" if "upload_hosts (take 10 ranked) = []"
  proof -
    from sel that have "r' = Inl no_server_found" by blast
    with r show ?thesis by simp
  qed
  from rank_servers_ranking[OF assms(3), of 10] ret fail none show ?thesis
    by blast
qed

theorem chooseserver_first_minimum_witness:
  "rank_servers
     (\<lambda>s. if s = ''1'' then Some 1 else if s = ''2'' then Some 2 else if s = ''3'' then Some 3 else None)
     (''192.0.2.1'', ''1'', ''2'')
     (findall_server 0
        (''<server url='' @ [dq] @ ''http://far/speedtest/upload.php'' @ [dq] @ '' lat='' @ [dq] @ ''3'' @ [dq]
           @ '' lon='' @ [dq] @ ''2'' @ [dq] @ ''/>''
           @ ''<server url='' @ [dq] @ ''http://near/speedtest/upload.php'' @ [dq] @ '' lat='' @ [dq] @ ''1'' @ [dq]
           @ '' lon='' @ [dq] @ ''3'' @ [dq] @ ''/>'')) []
     = Inr [(1, ''http://near/speedtest/upload.php''), (2, ''http://far/speedtest/upload.php'')]
   \<and> chooseserver
       (\<lambda>s. if s = ''1'' then Some 1 else if s = ''2'' then Some 2 else if s = ''3'' then Some 3 else None)
       \<lparr>dir_connects = True,
         config_reply = ''<client ip='' @ [dq] @ ''192.0.2.1'' @ [dq] @ '' lat='' @ [dq] @ ''1'' @ [dq]
           @ '' lon='' @ [dq] @ ''2'' @ [dq] @ ''/>'',
         servers_reply = ''<server url='' @ [dq] @ ''http://far/speedtest/upload.php'' @ [dq] @ '' lat='' @ [dq] @ ''3'' @ [dq]
           @ '' lon='' @ [dq] @ ''2'' @ [dq] @ ''/>''
           @ ''<server url='' @ [dq] @ ''http://near/speedtest/upload.php'' @ [dq] @ '' lat='' @ [dq] @ ''1'' @ [dq]
           @ '' lon='' @ [dq] @ ''3'' @ [dq] @ ''/>''\<rparr>
       \<lparr>probe_connects = \<lambda>k server. True,
         probe_elapsed = \<lambda>k server i. if server = ''far'' then 1 / 100 else 2 / 100\<rparr>
     = ([(''Your IP: 192.0.2.1'' @ [CHR 0x0A] @ ''Your latitude: 1'' @ [CHR 0x0A] @ ''Your longitude: 2'', []),
         (''http://near/speedtest/upload.php'', []), (''Latency for %s - %d'', [S ''near'', F 20]),
         (''http://far/speedtest/upload.php'', []), (''Latency for %s - %d'', [S ''far'', F 10]),
         (''Best server: %s'', [S ''far''])],
        Inr (Some ''far''))
   \<and> sorted (map fst [(1::real, ''http://near/speedtest/upload.php''), (2, ''http://far/speedtest/upload.php'')])
   \<and> (\<exists>i<length [(''near'', 20::real), (''far'', 10)].
         fst ([(''near'', 20::real), (''far'', 10)] ! i) = ''far''
         \<and> (\<forall>j<length [(''near'', 20::real), (''far'', 10)].
               snd ([(''near'', 20::real), (''far'', 10)] ! i) \<le> snd ([(''near'', 20::real), (''far'', 10)] ! j))
         \<and> (\<forall>j<i. snd ([(''near'', 20::real), (''far'', 10)] ! i) < snd ([(''near'', 20::real), (''far'', 10)] ! j)))"
proof -
  let ?float = "\<lambda>s. if s = ''1'' then Some (1::real) else if s = ''2'' then Some 2
                      else if s = ''3'' then Some 3 else None"
  let ?d = "\<lparr>dir_connects = True,
         config_reply = ''<client ip='' @ [dq] @ ''192.0.2.1'' @ [dq] @ '' lat='' @ [dq] @ ''1'' @ [dq]
           @ '' lon='' @ [dq] @ ''2'' @ [dq] @ ''/>'',
         servers_reply = ''<server url='' @ [dq] @ ''http://far/speedtest/upload.php'' @ [dq] @ '' lat='' @ [dq] @ ''3'' @ [dq]
           @ '' lon='' @ [dq] @ ''2'' @ [dq] @ ''/>''
           @ ''<server url='' @ [dq] @ ''http://near/speedtest/upload.php'' @ [dq] @ '' lat='' @ [dq] @ ''1'' @ [dq]
           @ '' lon='' @ [dq] @ ''3'' @ [dq] @ ''/>''\<rparr>"
  let ?w = "\<lparr>probe_connects = \<lambda>k server. True,
         probe_elapsed = \<lambda>k server i. if server = ''far'' then 1 / 100 else 2 / (100::real)\<rparr>"
  let ?ranked = "[(1::real, ''http://near/speedtest/upload.php''), (2, ''http://far/speedtest/upload.php'')]"
  let ?l = "[(''Your IP: 192.0.2.1'' @ [CHR 0x0A] @ ''Your latitude: 1'' @ [CHR 0x0A] @ ''Your longitude: 2'', []),
         (''http://near/speedtest/upload.php'', []), (''Latency for %s - %d'', [S ''near'', F 20]),
         (''http://far/speedtest/upload.php'', []), (''Latency for %s - %d'', [S ''far'', F 10]),
         (''Best server: %s'', [S ''far''])]"
  have c: "dir_connects ?d"
    by simp
  have s: "search_client (config_reply ?d) = Some (''192.0.2.1'', ''1'', ''2'')"
    by (simp add: match_tag_def dq_def)
  have rk: "rank_servers ?float (''192.0.2.1'', ''1'', ''2'') (findall_server 0 (servers_reply ?d)) []
      = Inr ?ranked"
    by (simp add: match_tag_def dq_def calc_distance_def insort_left_def tuple_less_def)
  have ch: "chooseserver ?float ?d ?w = (?l, Inr (Some ''far''))"
    by (simp add: chooseserver_def match_tag_def dq_def calc_distance_def insort_left_def tuple_less_def
        location_message_def select_server_def ping_def list_remove_def Let_def upt_rec match_upload_def)
  have p: "probed ?l = [(''near'', 20), (''far'', 10)]"
    by simp
  from chooseserver_first_minimum[OF c s rk ch] have srt: "sorted (map fst ?ranked)"
    and "\<exists>i<length (probed ?l). fst (probed ?l ! i) = ''far'' \<and> snd (probed ?l ! i) < 999999
        \<and> (\<forall>j<length (probed ?l). snd (probed ?l ! i) \<le> snd (probed ?l ! j))
        \<and> (\<forall>j<i. snd (probed ?l ! i) < snd (probed ?l ! j))"
    by blast+
  then have "\<exists>i<length [(''near'', 20::real), (''far'', 10)].
         fst ([(''near'', 20::real), (''far'', 10)] ! i) = ''far''
         \<and> (\<forall>j<length [(''near'', 20::real), (''far'', 10)].
               snd ([(''near'', 20::real), (''far'', 10)] ! i) \<le> snd ([(''near'', 20::real), (''far'', 10)] ! j))
         \<and> (\<forall>j<i. snd ([(''near'', 20::real), (''far'', 10)] ! i) < snd ([(''near'', 20::real), (''far'', 10)] ! j))"
    unfolding p by blast
  moreover have "rank_servers ?float (''192.0.2.1'', ''1'', ''2'')
      (findall_server 0
        (''<server url='' @ [dq] @ ''http://far/speedtest/upload.php'' @ [dq] @ '' lat='' @ [dq] @ ''3'' @ [dq]
           @ '' lon='' @ [dq] @ ''2'' @ [dq] @ ''/>''
           @ ''<server url='' @ [dq] @ ''http://near/speedtest/upload.php'' @ [dq] @ '' lat='' @ [dq] @ ''1'' @ [dq]
           @ '' lon='' @ [dq] @ ''3'' @ [dq] @ ''/>'')) [] = Inr ?ranked"
    using rk by simp
  ultimately show ?thesis
    using ch srt by blast
qed

text \<open>
  The claim as it is written fails: a candidate whose URL matches is probed, its latency
  is 1000000, and selection raises.
\<close>

theorem select_server_first_minimum_counterexample:
  "select_server \<lparr>probe_connects = \<lambda>k server. True, probe_elapsed = \<lambda>k server i. 1000\<rparr>
     [(1, ''http://a/speedtest/upload.php'')]
   = ([(''http://a/speedtest/upload.php'', []), (''Latency for %s - %d'', [S ''a'', F 1000000])],
      Inl no_server_found)"
  by (simp add: select_server_def ping_def list_remove_def Let_def upt_rec match_upload_def)

text \<open>
  C3 (as amended). The ranked list holds every candidate of the directory with its distance,
  in ascending order of distance, and the selector takes its first ten, the ten nearest,
  whether their URL matches or not. It skips those of the ten whose URL does not match and
  probes the others in order: the hosts probed are an initial part of the matching ones
  among the ten nearest, never more than ten, and all of them when every probe completes.
  A candidate that does not match uses up its place among the ten; a directory of at most
  ten candidates has all its matching candidates among them.
\<close>

theorem chooseserver_probes:
  assumes "dir_connects d"
    and "search_client (config_reply d) = Some location"
    and "rank_servers float location (findall_server 0 (servers_reply d)) [] = Inr ranked"
    and "chooseserver float d w = (l, r)"
  shows "sorted (map fst ranked)
       \<and> (\<forall>a\<in>set (take 10 ranked). \<forall>b\<in>set (drop 10 ranked). fst a \<le> fst b)
       \<and> (\<exists>ds. length ds = length (findall_server 0 (servers_reply d))
              \<and> (\<forall>i<length (findall_server 0 (servers_reply d)).
                    calc_distance float location (findall_server 0 (servers_reply d) ! i) = Inr (ds ! i))
              \<and> mset ranked = mset (zip ds (map fst (findall_server 0 (servers_reply d)))))
       \<and> length (probed l) \<le> 10
       \<and> length (upload_hosts (take 10 ranked)) \<le> 10
       \<and> prefix (map fst (probed l)) (upload_hosts (take 10 ranked))
       \<and> ((\<forall>k h. probe_connects w k h \<and> (\<exists>i<5. 0 \<le> probe_elapsed w k h i))
            \<longrightarrow> map fst (probed l) = upload_hosts (take 10 ranked))
       \<and> (length (findall_server 0 (servers_reply d)) \<le> 10
            \<longrightarrow> upload_hosts (take 10 ranked) = upload_hosts ranked)"
proof -
  from assms obtain l' r' where s: "select_server w ranked = (l', r')"
    and p: "probed l = probed l'"
    by (rule chooseserver_select)
  note sel = select_server_probes_any_list[OF s]
  from rank_servers_ranking[OF assms(3), of 10] obtain ds where
    ds: "length ds = length (findall_server 0 (servers_reply d))"
    "mset ranked = mset (zip ds (map fst (findall_server 0 (servers_reply d))))"
    by blast
  have "length ranked = length (zip ds (map fst (findall_server 0 (servers_reply d))))"
    using ds(2) by (metis size_mset)
  then have len: "length ranked = length (findall_server 0 (servers_reply d))"
    using ds(1) by simp
  have few: "upload_hosts (take 10 ranked) = upload_hosts ranked"
    if "length (findall_server 0 (servers_reply d)) \<le> 10"
    using that len by simp
  from rank_servers_ranking[OF assms(3), of 10] sel few show ?thesis
    unfolding p by blast
qed

theorem chooseserver_probes_witness:
  "rank_servers
     (\<lambda>s. if s = ''1'' then Some 1 else if s = ''2'' then Some 2 else if s = ''3'' then Some 3 else None)
     (''192.0.2.1'', ''1'', ''2'')
     (findall_server 0
        (''<server url='' @ [dq] @ ''http://far/speedtest/upload.php'' @ [dq] @ '' lat='' @ [dq] @ ''3'' @ [dq]
           @ '' lon='' @ [dq] @ ''2'' @ [dq] @ ''/>''
           @ ''<server url='' @ [dq] @ ''https://mid/speedtest/upload.php'' @ [dq] @ '' lat='' @ [dq] @ ''1'' @ [dq]
           @ '' lon='' @ [dq] @ ''2'' @ [dq] @ ''/>''
           @ ''<server url='' @ [dq] @ ''http://near/speedtest/upload.php'' @ [dq] @ '' lat='' @ [dq] @ ''1'' @ [dq]
           @ '' lon='' @ [dq] @ ''3'' @ [dq] @ ''/>'')) []
     = Inr [(0, ''https://mid/speedtest/upload.php''), (1, ''http://near/speedtest/upload.php''),
            (2, ''http://far/speedtest/upload.php'')]
   \<and> chooseserver
       (\<lambda>s. if s = ''1'' then Some 1 else if s = ''2'' then Some 2 else if s = ''3'' then Some 3 else None)
       \<lparr>dir_connects = True,
         config_reply = ''<client ip='' @ [dq] @ ''192.0.2.1'' @ [dq] @ '' lat='' @ [dq] @ ''1'' @ [dq]
           @ '' lon='' @ [dq] @ ''2'' @ [dq] @ ''/>'',
         servers_reply = ''<server url='' @ [dq] @ ''http://far/speedtest/upload.php'' @ [dq] @ '' lat='' @ [dq] @ ''3'' @ [dq]
           @ '' lon='' @ [dq] @ ''2'' @ [dq] @ ''/>''
           @ ''<server url='' @ [dq] @ ''https://mid/speedtest/upload.php'' @ [dq] @ '' lat='' @ [dq] @ ''1'' @ [dq]
           @ '' lon='' @ [dq] @ ''2'' @ [dq] @ ''/>''
           @ ''<server url='' @ [dq] @ ''http://near/speedtest/upload.php'' @ [dq] @ '' lat='' @ [dq] @ ''1'' @ [dq]
           @ '' lon='' @ [dq] @ ''3'' @ [dq] @ ''/>''\<rparr>
       \<lparr>probe_connects = \<lambda>k server. True, probe_elapsed = \<lambda>k server i. 1 / 100\<rparr>
     = ([(''Your IP: 192.0.2.1'' @ [CHR 0x0A] @ ''Your latitude: 1'' @ [CHR 0x0A] @ ''Your longitude: 2'', []),
         (''https://mid/speedtest/upload.php'', []),
         (''http://near/speedtest/upload.php'', []), (''Latency for %s - %d'', [S ''near'', F 10]),
         (''http://far/speedtest/upload.php'', []), (''Latency for %s - %d'', [S ''far'', F 10]),
         (''Best server: %s'', [S ''near''])],
        Inr (Some ''near''))
   \<and> sorted (map fst [(0::real, ''https://mid/speedtest/upload.php''), (1, ''http://near/speedtest/upload.php''),
            (2, ''http://far/speedtest/upload.php'')])
   \<and> [''near'', ''far''] = upload_hosts (take 10
         [(0, ''https://mid/speedtest/upload.php''), (1, ''http://near/speedtest/upload.php''),
          (2, ''http://far/speedtest/upload.php'')])"
proof -
  let ?float = "\<lambda>s. if s = ''1'' then Some (1::real) else if s = ''2'' then Some 2
                      else if s = ''3'' then Some 3 else None"
  let ?d = "\<lparr>dir_connects = True,
         config_reply = ''<client ip='' @ [dq] @ ''192.0.2.1'' @ [dq] @ '' lat='' @ [dq] @ ''1'' @ [dq]
           @ '' lon='' @ [dq] @ ''2'' @ [dq] @ ''/>'',
         servers_reply = ''<server url='' @ [dq] @ ''http://far/speedtest/upload.php'' @ [dq] @ '' lat='' @ [dq] @ ''3'' @ [dq]
           @ '' lon='' @ [dq] @ ''2'' @ [dq] @ ''/>''
           @ ''<server url='' @ [dq] @ ''https://mid/speedtest/upload.php'' @ [dq] @ '' lat='' @ [dq] @ ''1'' @ [dq]
           @ '' lon='' @ [dq] @ ''2'' @ [dq] @ ''/>''
           @ ''<server url='' @ [dq] @ ''http://near/speedtest/upload.php'' @ [dq] @ '' lat='' @ [dq] @ ''1'' @ [dq]
           @ '' lon='' @ [dq] @ ''3'' @ [dq] @ ''/>''\<rparr>"
  let ?w = "\<lparr>probe_connects = \<lambda>k server. True, probe_elapsed = \<lambda>k server i. 1 / (100::real)\<rparr>"
  let ?ranked = "[(0::real, ''https://mid/speedtest/upload.php''), (1, ''http://near/speedtest/upload.php''),
            (2, ''http://far/speedtest/upload.php'')]"
  let ?l = "[(''Your IP: 192.0.2.1'' @ [CHR 0x0A] @ ''Your latitude: 1'' @ [CHR 0x0A] @ ''Your longitude: 2'', []),
         (''https://mid/speedtest/upload.php'', []),
         (''http://near/speedtest/upload.php'', []), (''Latency for %s - %d'', [S ''near'', F 10]),
         (''http://far/speedtest/upload.php'', []), (''Latency for %s - %d'', [S ''far'', F 10]),
         (''Best server: %s'', [S ''near''])]"
  have c: "dir_connects ?d"
    by simp
  have s: "search_client (config_reply ?d) = Some (''192.0.2.1'', ''1'', ''2'')"
    by (simp add: match_tag_def dq_def)
  have rk: "rank_servers ?float (''192.0.2.1'', ''1'', ''2'') (findall_server 0 (servers_reply ?d)) []
      = Inr ?ranked"
    by (simp add: match_tag_def dq_def calc_distance_def insort_left_def tuple_less_def)
  have ch: "chooseserver ?float ?d ?w = (?l, Inr (Some ''near''))"
    by (simp add: chooseserver_def match_tag_def dq_def calc_distance_def insort_left_def tuple_less_def
        location_message_def select_server_def ping_def list_remove_def Let_def upt_rec match_upload_def)
  have pc: "\<forall>k h. probe_connects ?w k h \<and> (\<exists>i<5. 0 \<le> probe_elapsed ?w k h i)"
    by (auto intro: exI[of _ 0])
  have p: "map fst (probed ?l) = [''near'', ''far'']"
    by simp
  from chooseserver_probes[OF c s rk ch] pc have srt: "sorted (map fst ?ranked)"
    and "map fst (probed ?l) = upload_hosts (take 10 ?ranked)"
    by blast+
  then have "[''near'', ''far''] = upload_hosts (take 10 ?ranked)"
    unfolding p by simp
  moreover have "rank_servers ?float (''192.0.2.1'', ''1'', ''2'')
      (findall_server 0
        (''<server url='' @ [dq] @ ''http://far/speedtest/upload.php'' @ [dq] @ '' lat='' @ [dq] @ ''3'' @ [dq]
           @ '' lon='' @ [dq] @ ''2'' @ [dq] @ ''/>''
           @ ''<server url='' @ [dq] @ ''https://mid/speedtest/upload.php'' @ [dq] @ '' lat='' @ [dq] @ ''1'' @ [dq]
           @ '' lon='' @ [dq] @ ''2'' @ [dq] @ ''/>''
           @ ''<server url='' @ [dq] @ ''http://near/speedtest/upload.php'' @ [dq] @ '' lat='' @ [dq] @ ''1'' @ [dq]
           @ '' lon='' @ [dq] @ ''3'' @ [dq] @ ''/>'')) [] = Inr ?ranked"
    using rk by simp
  ultimately show ?thesis
    using ch srt by blast
qed

text \<open>
  The claim as it is written fails: ten candidates that do not match come first, the
  eleventh matches, and nothing is probed.
\<close>

theorem select_server_probes_counterexample:
  "upload_hosts
     [(1, ''ftp://x''), (2, ''ftp://x''), (3, ''ftp://x''), (4, ''ftp://x''), (5, ''ftp://x''),
      (6, ''ftp://x''), (7, ''ftp://x''), (8, ''ftp://x''), (9, ''ftp://x''), (10, ''ftp://x''),
      (11, ''http://a/speedtest/upload.php'')] = [''a'']
   \<and> probed (fst (select_server \<lparr>probe_connects = \<lambda>k server. True, probe_elapsed = \<lambda>k server i. 1 / 100\<rparr>
     [(1, ''ftp://x''), (2, ''ftp://x''), (3, ''ftp://x''), (4, ''ftp://x''), (5, ''ftp://x''),
      (6, ''ftp://x''), (7, ''ftp://x''), (8, ''ftp://x''), (9, ''ftp://x''), (10, ''ftp://x''),
      (11, ''http://a/speedtest/upload.php'')])) = []
   \<and> snd (select_server \<lparr>probe_connects = \<lambda>k server. True, probe_elapsed = \<lambda>k server i. 1 / 100\<rparr>
     [(1, ''ftp://x''), (2, ''ftp://x''), (3, ''ftp://x''), (4, ''ftp://x''), (5, ''ftp://x''),
      (6, ''ftp://x''), (7, ''ftp://x''), (8, ''ftp://x''), (9, ''ftp://x''), (10, ''ftp://x''),
      (11, ''http://a/speedtest/upload.php'')]) = Inl no_server_found"
  by (simp add: upload_hosts_def map_filter_simps select_server_def match_upload_def)

text \<open>
  A run of the whole selector on a directory of eleven candidates: the only candidate
  whose URL matches is listed first and is the farthest, so it is not among the ten nearest
  and is never probed.
\<close>

lemma chooseserver_eleven_candidates:
  "chooseserver
     (\<lambda>s. if s = ''1'' then Some 1 else if s = ''2'' then Some 2 else if s = ''5'' then Some 5 else if s = ''6'' then Some 6 else if s = ''7'' then Some 7 else if s = ''8'' then Some 8 else if s = ''9'' then Some 9 else if s = ''10'' then Some 10 else if s = ''11'' then Some 11 else if s = ''12'' then Some 12 else if s = ''13'' then Some 13 else if s = ''14'' then Some 14 else if s = ''15'' then Some 15 else None)
     \<lparr>dir_connects = True,
       config_reply = ''<client ip='' @ [dq] @ ''192.0.2.1'' @ [dq] @ '' lat='' @ [dq] @ ''1'' @ [dq]
         @ '' lon='' @ [dq] @ ''2'' @ [dq] @ ''/>'',
       servers_reply = ''<server url='' @ [dq] @ ''http://a/speedtest/upload.php'' @ [dq] @ '' lat='' @ [dq] @ ''1'' @ [dq] @ '' lon='' @ [dq] @ ''15'' @ [dq] @ ''/>''
         @ ''<server url='' @ [dq] @ ''ftp://x'' @ [dq] @ '' lat='' @ [dq] @ ''1'' @ [dq] @ '' lon='' @ [dq] @ ''5'' @ [dq] @ ''/>''
         @ ''<server url='' @ [dq] @ ''ftp://x'' @ [dq] @ '' lat='' @ [dq] @ ''1'' @ [dq] @ '' lon='' @ [dq] @ ''6'' @ [dq] @ ''/>''
         @ ''<server url='' @ [dq] @ ''ftp://x'' @ [dq] @ '' lat='' @ [dq] @ ''1'' @ [dq] @ '' lon='' @ [dq] @ ''7'' @ [dq] @ ''/>''
         @ ''<server url='' @ [dq] @ ''ftp://x'' @ [dq] @ '' lat='' @ [dq] @ ''1'' @ [dq] @ '' lon='' @ [dq] @ ''8'' @ [dq] @ ''/>''
         @ ''<server url='' @ [dq] @ ''ftp://x'' @ [dq] @ '' lat='' @ [dq] @ ''1'' @ [dq] @ '' lon='' @ [dq] @ ''9'' @ [dq] @ ''/>''
         @ ''<server url='' @ [dq] @ ''ftp://x'' @ [dq] @ '' lat='' @ [dq] @ ''1'' @ [dq] @ '' lon='' @ [dq] @ ''10'' @ [dq] @ ''/>''
         @ ''<server url='' @ [dq] @ ''ftp://x'' @ [dq] @ '' lat='' @ [dq] @ ''1'' @ [dq] @ '' lon='' @ [dq] @ ''11'' @ [dq] @ ''/>''
         @ ''<server url='' @ [dq] @ ''ftp://x'' @ [dq] @ '' lat='' @ [dq] @ ''1'' @ [dq] @ '' lon='' @ [dq] @ ''12'' @ [dq] @ ''/>''
         @ ''<server url='' @ [dq] @ ''ftp://x'' @ [dq] @ '' lat='' @ [dq] @ ''1'' @ [dq] @ '' lon='' @ [dq] @ ''13'' @ [dq] @ ''/>''
         @ ''<server url='' @ [dq] @ ''ftp://x'' @ [dq] @ '' lat='' @ [dq] @ ''1'' @ [dq] @ '' lon='' @ [dq] @ ''14'' @ [dq] @ ''/>''\<rparr>
     \<lparr>probe_connects = \<lambda>k server. True, probe_elapsed = \<lambda>k server i. 1 / 100\<rparr>
   = ([(''Your IP: 192.0.2.1'' @ [CHR 0x0A] @ ''Your latitude: 1'' @ [CHR 0x0A] @ ''Your longitude: 2'', []),
       (''ftp://x'', []),
       (''ftp://x'', []),
       (''ftp://x'', []),
       (''ftp://x'', []),
       (''ftp://x'', []),
       (''ftp://x'', []),
       (''ftp://x'', []),
       (''ftp://x'', []),
       (''ftp://x'', []),
       (''ftp://x'', [])],
      Inl no_server_found)"
  by (simp add: chooseserver_def match_tag_def dq_def calc_distance_def insort_left_def tuple_less_def
      location_message_def select_server_def match_upload_def)

section \<open>\<^verbatim>\<open>download\<close> and \<^verbatim>\<open>upload\<close>: the totals\<close>

lemma open_connections_all:
  "\<forall>run\<in>set runs. opens run \<Longrightarrow> open_connections opens host runs = Inr ()"
  by (induction runs) auto

lemma join_downloads_sum:
  "\<forall>run\<in>set runs. downloaded run = Some (bytes run) \<Longrightarrow>
     join_downloads downloaded runs acc = Inr (acc + sum_list (map bytes runs))"
  by (induction runs arbitrary: acc) auto

lemma download_files_sum:
  "\<forall>current_file\<in>set files. \<forall>run<runs. rd current_file run = Some (bytes current_file run) \<Longrightarrow>
     download_files rd runs files acc =
       Inr (acc + (\<Sum>current_file\<leftarrow>files. \<Sum>run\<leftarrow>[0..<runs]. bytes current_file run))"
proof (induction files arbitrary: acc)
  case Nil
  then show ?case by simp
next
  case (Cons current_file rest)
  have "join_downloads (rd current_file) [0..<runs] acc =
      Inr (acc + sum_list (map (bytes current_file) [0..<runs]))"
    using Cons.prems by (intro join_downloads_sum) simp
  moreover have "download_files rd runs rest (acc + sum_list (map (bytes current_file) [0..<runs])) =
      Inr (acc + sum_list (map (bytes current_file) [0..<runs])
           + (\<Sum>f\<leftarrow>rest. \<Sum>run\<leftarrow>[0..<runs]. bytes f run))"
    using Cons.prems by (intro Cons.IH) simp
  ultimately show ?case by simp
qed

text \<open>
  C5. When the connections open, every worker reads its body and the elapsed time is not
  zero, \<^verbatim>\<open>download\<close> returns the total of the bytes times 8000 divided by the elapsed
  milliseconds. The total is the sum, over the three files and the \<open>runs\<close> workers of each,
  of the bytes each worker read; when every worker of a file reads the same number of
  bytes, it is the sum over the files of that number times \<open>runs\<close>.
\<close>

theorem download_total:
  assumes "\<forall>run<runs. dl_connects n run"
    and "\<forall>current_file\<in>set DOWNLOAD_FILES. \<forall>run<runs.
           dl_read n current_file run = Some (bytes current_file run)"
    and "dl_end_time n \<noteq> dl_start_time n"
  shows "download n host runs =
           Inr (real (\<Sum>current_file\<leftarrow>DOWNLOAD_FILES. \<Sum>run\<leftarrow>[0..<runs]. bytes current_file run)
                  * 8000 / ((dl_end_time n - dl_start_time n) * 1000))
       \<and> length DOWNLOAD_FILES = 3
       \<and> ((\<forall>current_file run. bytes current_file run = per_item current_file) \<longrightarrow>
            (\<Sum>current_file\<leftarrow>DOWNLOAD_FILES. \<Sum>run\<leftarrow>[0..<runs]. bytes current_file run)
              = (\<Sum>current_file\<leftarrow>DOWNLOAD_FILES. per_item current_file * runs))"
proof -
  have opened: "open_connections (dl_connects n) host [0..<runs] = Inr ()"
    using assms(1) by (intro open_connections_all) simp
  have tot: "download_files (dl_read n) runs DOWNLOAD_FILES 0 =
      Inr (0 + (\<Sum>current_file\<leftarrow>DOWNLOAD_FILES. \<Sum>run\<leftarrow>[0..<runs]. bytes current_file run))"
    using assms(2) by (rule download_files_sum)
  have ret: "download n host runs =
           Inr (real (\<Sum>current_file\<leftarrow>DOWNLOAD_FILES. \<Sum>run\<leftarrow>[0..<runs]. bytes current_file run)
                  * 8000 / ((dl_end_time n - dl_start_time n) * 1000))"
    using opened tot assms(3) by (simp add: download_def)
  have three: "length DOWNLOAD_FILES = 3"
    by (simp add: DOWNLOAD_FILES_def)
  have uniform: "(\<Sum>current_file\<leftarrow>DOWNLOAD_FILES. \<Sum>run\<leftarrow>[0..<runs]. bytes current_file run)
              = (\<Sum>current_file\<leftarrow>DOWNLOAD_FILES. per_item current_file * runs)"
    if "\<forall>current_file run. bytes current_file run = per_item current_file"
    using that by (simp add: sum_list_triv mult.commute)
  from ret three uniform show ?thesis by blast
qed

theorem download_total_witness:
  "download \<lparr>dl_connects = \<lambda>run. True, dl_start_time = 10, dl_end_time = 11,
              dl_read = \<lambda>current_file run. Some (if current_file = ''/speedtest/random350x350.jpg'' then 50 else 100)\<rparr>
     ''a'' 2 = Inr 4000"
proof -
  let ?n = "\<lparr>dl_connects = \<lambda>run. True, dl_start_time = 10, dl_end_time = 11,
              dl_read = \<lambda>current_file run. Some (if current_file = ''/speedtest/random350x350.jpg'' then 50 else 100)\<rparr>"
  let ?bytes = "\<lambda>current_file (run::nat). if current_file = ''/speedtest/random350x350.jpg'' then 50 else (100::nat)"
  have c: "\<forall>run<2. dl_connects ?n run"
    by simp
  have r: "\<forall>current_file\<in>set DOWNLOAD_FILES. \<forall>run<2. dl_read ?n current_file run = Some (?bytes current_file run)"
    by simp
  have t: "dl_end_time ?n \<noteq> dl_start_time ?n"
    by simp
  from download_total[OF c r t, of "''a''" "\<lambda>current_file. 0"] show ?thesis
    by (simp add: DOWNLOAD_FILES_def upt_rec)
qed

lemma split_on_nonempty: "split_on sep s \<noteq> []"
  by (induction s) auto

lemma length_post_data: "length (post_data choice) = 2"
  by (simp add: post_data_def UPLOAD_FILES_def)

lemma lengths_post_data: "map length (post_data choice) = [132893, 493647]"
  by (simp add: post_data_def UPLOAD_FILES_def)

lemma join_uploads_sum:
  "\<forall>run\<in>set runs. uploaded run = Some (echoed run) \<Longrightarrow>
     join_uploads uploaded runs acc = Inr (acc + sum_list (map echoed runs))"
  by (induction runs arbitrary: acc) auto

lemma upload_items_sum:
  "\<forall>data\<in>set items. \<forall>run<runs. uploadthread int_of (response data run) = Some (echoed data run) \<Longrightarrow>
     upload_items int_of response runs items acc =
       Inr (acc + (\<Sum>data\<leftarrow>items. \<Sum>run\<leftarrow>[0..<runs]. echoed data run))"
proof (induction items arbitrary: acc)
  case Nil
  then show ?case by simp
next
  case (Cons data rest)
  have "join_uploads (\<lambda>run. uploadthread int_of (response data run)) [0..<runs] acc =
      Inr (acc + sum_list (map (echoed data) [0..<runs]))"
    using Cons.prems by (intro join_uploads_sum) simp
  moreover have "upload_items int_of response runs rest (acc + sum_list (map (echoed data) [0..<runs])) =
      Inr (acc + sum_list (map (echoed data) [0..<runs])
           + (\<Sum>d\<leftarrow>rest. \<Sum>run\<leftarrow>[0..<runs]. echoed d run))"
    using Cons.prems by (intro Cons.IH) simp
  ultimately show ?case by simp
qed

text \<open>
  C6. When the connections open, every worker gets a response whose second field, the
  text split at \<^verbatim>\<open>=\<close>, \<^verbatim>\<open>int\<close> reads as a number, and the elapsed time is not zero,
  \<^verbatim>\<open>upload\<close> returns the sum of those numbers over the upload items and the \<open>runs\<close> workers
  of each, times 8000 divided by the elapsed milliseconds. The lengths of the data sent,
  132893 and 493647 characters, do not enter the total.
\<close>

theorem upload_total:
  assumes "\<forall>run<runs. ul_connects n run"
    and "\<forall>data\<in>set (post_data (ul_choice n)). \<forall>run<runs.
           \<exists>reply. ul_response n data run = Some reply
                    \<and> 1 < length (split_on CHR ''='' reply)
                    \<and> int_of (split_on CHR ''='' reply ! 1) = Some (echoed data run)"
    and "ul_end_time n \<noteq> ul_start_time n"
  shows "upload int_of n host runs =
           Inr (real_of_int (\<Sum>data\<leftarrow>post_data (ul_choice n). \<Sum>run\<leftarrow>[0..<runs]. echoed data run)
                  * 8000 / ((ul_end_time n - ul_start_time n) * 1000))
       \<and> map length (post_data (ul_choice n)) = [132893, 493647]"
proof -
  have opened: "open_connections (ul_connects n) host [0..<runs] = Inr ()"
    using assms(1) by (intro open_connections_all) simp
  have workers: "\<forall>data\<in>set (post_data (ul_choice n)). \<forall>run<runs.
      uploadthread int_of (ul_response n data run) = Some (echoed data run)"
  proof (intro ballI allI impI)
    fix data run
    assume "data \<in> set (post_data (ul_choice n))" and "run < runs"
    with assms(2) obtain reply where "ul_response n data run = Some reply"
      "1 < length (split_on CHR ''='' reply)"
      "int_of (split_on CHR ''='' reply ! 1) = Some (echoed data run)"
      by blast
    then show "uploadthread int_of (ul_response n data run) = Some (echoed data run)"
      by (simp add: uploadthread_def Let_def)
  qed
  have tot: "upload_items int_of (ul_response n) runs (post_data (ul_choice n)) 0 =
      Inr (0 + (\<Sum>data\<leftarrow>post_data (ul_choice n). \<Sum>run\<leftarrow>[0..<runs]. echoed data run))"
    using workers by (rule upload_items_sum)
  have ret: "upload int_of n host runs =
           Inr (real_of_int (\<Sum>data\<leftarrow>post_data (ul_choice n). \<Sum>run\<leftarrow>[0..<runs]. echoed data run)
                  * 8000 / ((ul_end_time n - ul_start_time n) * 1000))"
    using opened tot assms(3) by (simp add: upload_def)
  from ret lengths_post_data show ?thesis by blast
qed

theorem upload_total_witness:
  "upload (\<lambda>s. if s = ''100'' then Some 100 else None)
     \<lparr>ul_connects = \<lambda>run. True, ul_start_time = 10, ul_end_time = 11,
       ul_choice = \<lambda>current_file_size i. 0, ul_response = \<lambda>data run. Some ''size=100''\<rparr>
     ''a'' 2 = Inr 3200"
proof -
  let ?int = "\<lambda>s. if s = ''100'' then Some (100::int) else None"
  let ?n = "\<lparr>ul_connects = \<lambda>run. True, ul_start_time = 10, ul_end_time = 11,
       ul_choice = \<lambda>current_file_size i. 0, ul_response = \<lambda>data run. Some ''size=100''\<rparr>"
  have c: "\<forall>run<2. ul_connects ?n run"
    by simp
  have f: "split_on CHR ''='' ''size=100'' = [''size'', ''100'']"
    by simp
  have r: "\<forall>data\<in>set (post_data (ul_choice ?n)). \<forall>run<2.
           \<exists>reply. ul_response ?n data run = Some reply
                    \<and> 1 < length (split_on CHR ''='' reply)
                    \<and> ?int (split_on CHR ''='' reply ! 1) = Some ((\<lambda>data run. 100) data run)"
    using f by simp
  have t: "ul_end_time ?n \<noteq> ul_start_time ?n"
    by simp
  have s: "(\<Sum>data\<leftarrow>post_data (ul_choice ?n). \<Sum>run\<leftarrow>[0..<2]. (100::int)) = 400"
    by (simp add: sum_list_triv length_post_data)
  from upload_total[OF c r t, of "''a''"] s show ?thesis
    by simp
qed

section \<open>\<^verbatim>\<open>pretty_speed\<close>: units and format\<close>

lemma pretty_speed_loop_small: "x < 1024 \<Longrightarrow> pretty_speed_loop x u = (x, u)"
  by (subst pretty_speed_loop.simps) simp

lemma pretty_speed_loop_unroll:
  "1024 ^ k \<le> x \<Longrightarrow> pretty_speed_loop x u = pretty_speed_loop (x / 1024 ^ k) (u + k)"
proof (induction k arbitrary: x u)
  case 0
  then show ?case by simp
next
  case (Suc k)
  have "(1::real) \<le> 1024 ^ k"
    by (rule one_le_power) simp
  then have "(1024::real) \<le> 1024 * 1024 ^ k"
    by simp
  also have "\<dots> \<le> x"
    using Suc.prems by simp
  finally have big: "1024 \<le> x" .
  have lo: "1024 ^ k \<le> x / 1024"
    using Suc.prems by (simp add: field_simps)
  have "pretty_speed_loop x u = pretty_speed_loop (x / 1024) (u + 1)"
    using big by (subst pretty_speed_loop.simps) simp
  also have "\<dots> = pretty_speed_loop (x / 1024 / 1024 ^ k) (u + 1 + k)"
    using lo by (rule Suc.IH)
  finally show ?case by simp
qed

lemma pretty_speed_loop_divisions:
  assumes "k = 0 \<or> 1024 ^ k \<le> x" and "x < 1024 ^ Suc k"
  shows "pretty_speed_loop x u = (x / 1024 ^ k, u + k)"
proof (cases "k = 0")
  case True
  then show ?thesis using assms(2) by (simp add: pretty_speed_loop_small)
next
  case False
  then have lo: "1024 ^ k \<le> x" using assms(1) by simp
  have "x / 1024 ^ k < 1024"
    using assms(2) by (simp add: field_simps)
  then show ?thesis
    using pretty_speed_loop_unroll[OF lo, of u] by (simp add: pretty_speed_loop_small)
qed

lemma pretty_speed_loop_unit: "u \<le> snd (pretty_speed_loop x u)"
proof (induction x u rule: pretty_speed_loop.induct)
  case (1 speed unit)
  show ?case
  proof (cases "1024 \<le> speed")
    case True
    with "1" have "unit + 1 \<le> snd (pretty_speed_loop (speed / 1024) (unit + 1))" by simp
    then show ?thesis using True by (subst pretty_speed_loop.simps) simp
  next
    case False
    then show ?thesis by (subst pretty_speed_loop.simps) simp
  qed
qed

lemma pretty_speed_divisions:
  assumes "k = 0 \<or> 1024 ^ k \<le> x" and "x < 1024 ^ Suc k"
  shows "pretty_speed x =
     (if k < 5 then Inr (format_2f (x / 1024 ^ k) @ '' '' @ units ! k) else Inl IndexError)"
  using pretty_speed_loop_divisions[OF assms, of 0] by (simp add: pretty_speed_def units_def)

lemma format_2f_values:
  "format_2f 0 = ''0.00''" "format_2f 1 = ''1.00''" "format_2f (3 / 2) = ''1.50''"
  "format_2f 2 = ''2.00''" "format_2f 3 = ''3.00''"
  by (simp_all add: format_2f_def round_half_even_def decimal.simps digit_def)

text \<open>
  C8. \<^verbatim>\<open>pretty_speed(0)\<close> is \<^verbatim>\<open>"0.00 bps"\<close>, \<^verbatim>\<open>pretty_speed(1536)\<close> is
  \<^verbatim>\<open>"1.50 Kbps"\<close> and \<^verbatim>\<open>pretty_speed(1024*1024)\<close> is \<^verbatim>\<open>"1.00 Mbps"\<close>. In general the
  loop divides by 1024 while the value is at least 1024: a value that takes \<open>k\<close> divisions,
  \<open>k\<close> at most 4, is printed as the quotient in the format \<^verbatim>\<open>%0.2f\<close>, a space and the
  \<open>k\<close>-th unit.
\<close>

theorem pretty_speed_format:
  "pretty_speed 0 = Inr ''0.00 bps''
   \<and> pretty_speed 1536 = Inr ''1.50 Kbps''
   \<and> pretty_speed (1024 * 1024) = Inr ''1.00 Mbps''
   \<and> (\<forall>x k. (k = 0 \<or> 1024 ^ k \<le> x) \<and> x < 1024 ^ Suc k \<and> k < 5 \<longrightarrow>
         pretty_speed_loop x 0 = (x / 1024 ^ k, k)
         \<and> pretty_speed x = Inr (format_2f (x / 1024 ^ k) @ '' '' @ units ! k))"
proof -
  have "pretty_speed 0 = Inr ''0.00 bps''"
    using pretty_speed_divisions[of 0 0] by (simp add: format_2f_values units_def)
  moreover have "pretty_speed 1536 = Inr ''1.50 Kbps''"
    using pretty_speed_divisions[of 1 1536] by (simp add: format_2f_values units_def)
  moreover have "pretty_speed (1024 * 1024) = Inr ''1.00 Mbps''"
    using pretty_speed_divisions[of 2 "1024 * 1024"] by (simp add: format_2f_values units_def)
  moreover have "pretty_speed_loop x 0 = (x / 1024 ^ k, k)
         \<and> pretty_speed x = Inr (format_2f (x / 1024 ^ k) @ '' '' @ units ! k)"
    if "k = 0 \<or> 1024 ^ k \<le> x" and "x < 1024 ^ Suc k" and "k < 5" for x k
    using pretty_speed_loop_divisions[OF that(1,2), of 0] pretty_speed_divisions[OF that(1,2)] that(3)
    by simp
  ultimately show ?thesis by blast
qed

theorem pretty_speed_format_witness:
  "((1::nat) = 0 \<or> 1024 ^ 1 \<le> (2048::real)) \<and> (2048::real) < 1024 ^ Suc 1 \<and> (1::nat) < 5
   \<and> pretty_speed_loop 2048 0 = (2, 1) \<and> pretty_speed 2048 = Inr ''2.00 Kbps''"
proof -
  have h: "((1::nat) = 0 \<or> 1024 ^ 1 \<le> (2048::real)) \<and> (2048::real) < 1024 ^ Suc 1 \<and> (1::nat) < 5"
    by simp
  from pretty_speed_format have
    "((1::nat) = 0 \<or> 1024 ^ 1 \<le> (2048::real)) \<and> (2048::real) < 1024 ^ Suc 1 \<and> (1::nat) < 5 \<longrightarrow>
       pretty_speed_loop 2048 0 = (2048 / 1024 ^ 1, 1)
       \<and> pretty_speed 2048 = Inr (format_2f (2048 / 1024 ^ 1) @ '' '' @ units ! 1)"
    by blast
  with h show ?thesis
    by (simp add: format_2f_values units_def)
qed

text \<open>
  C9 (as amended). For a non-negative input below \<open>1024\<^sup>5\<close> the loop makes at most four
  divisions and \<^verbatim>\<open>pretty_speed\<close> returns the quotient with the unit of that index, \<^verbatim>\<open>Tbps\<close>
  the last. From \<open>1024\<^sup>5\<close> on the index runs past the list of units and the lookup raises
  \<^verbatim>\<open>IndexError\<close>: the code has no cap.
\<close>

theorem pretty_speed_units:
  assumes "0 \<le> x"
  shows "(x < 1024 ^ 5 \<longrightarrow>
            (\<exists>k<5. pretty_speed_loop x 0 = (x / 1024 ^ k, k)
                  \<and> pretty_speed x = Inr (format_2f (x / 1024 ^ k) @ '' '' @ units ! k)))
       \<and> (1024 ^ 5 \<le> x \<longrightarrow> pretty_speed x = Inl IndexError)"
proof
  show "x < 1024 ^ 5 \<longrightarrow>
            (\<exists>k<5. pretty_speed_loop x 0 = (x / 1024 ^ k, k)
                  \<and> pretty_speed x = Inr (format_2f (x / 1024 ^ k) @ '' '' @ units ! k))"
  proof
    assume lt: "x < 1024 ^ 5"
    have "\<exists>k<5. (k = 0 \<or> 1024 ^ k \<le> x) \<and> x < 1024 ^ Suc k"
    proof -
      consider "x < 1024" | "1024 ^ 1 \<le> x" "x < 1024 ^ 2" | "1024 ^ 2 \<le> x" "x < 1024 ^ 3"
        | "1024 ^ 3 \<le> x" "x < 1024 ^ 4" | "1024 ^ 4 \<le> x" "x < 1024 ^ 5"
        using lt by fastforce
      then show ?thesis
      proof cases
        case 1
        then show ?thesis by (intro exI[of _ 0]) simp
      next
        case 2
        then show ?thesis by (intro exI[of _ 1]) simp
      next
        case 3
        then show ?thesis by (intro exI[of _ 2]) simp
      next
        case 4
        then show ?thesis by (intro exI[of _ 3]) simp
      next
        case 5
        then show ?thesis by (intro exI[of _ 4]) simp
      qed
    qed
    then obtain k where k: "k < 5" "k = 0 \<or> 1024 ^ k \<le> x" "x < 1024 ^ Suc k" by blast
    have "pretty_speed_loop x 0 = (x / 1024 ^ k, k)"
      using pretty_speed_loop_divisions[OF k(2,3), of 0] by simp
    moreover have "pretty_speed x = Inr (format_2f (x / 1024 ^ k) @ '' '' @ units ! k)"
      using pretty_speed_divisions[OF k(2,3)] k(1) by simp
    ultimately show "\<exists>k<5. pretty_speed_loop x 0 = (x / 1024 ^ k, k)
                  \<and> pretty_speed x = Inr (format_2f (x / 1024 ^ k) @ '' '' @ units ! k)"
      using k(1) by blast
  qed
  show "1024 ^ 5 \<le> x \<longrightarrow> pretty_speed x = Inl IndexError"
  proof
    assume ge: "1024 ^ 5 \<le> x"
    have "pretty_speed_loop x 0 = pretty_speed_loop (x / 1024 ^ 5) 5"
      using pretty_speed_loop_unroll[OF ge, of 0] by simp
    moreover have "5 \<le> snd (pretty_speed_loop (x / 1024 ^ 5) 5)"
      by (rule pretty_speed_loop_unit)
    ultimately have "\<not> snd (pretty_speed_loop x 0) < length units"
      by (simp add: units_def)
    then show "pretty_speed x = Inl IndexError"
      by (cases "pretty_speed_loop x 0") (simp add: pretty_speed_def)
  qed
qed

theorem pretty_speed_units_witness:
  "(0::real) \<le> 3 * 1024 ^ 4 \<and> (3::real) * 1024 ^ 4 < 1024 ^ 5
   \<and> (\<exists>k<5. pretty_speed_loop (3 * 1024 ^ 4) 0 = (3 * 1024 ^ 4 / 1024 ^ k, k)
            \<and> pretty_speed (3 * 1024 ^ 4) = Inr (format_2f (3 * 1024 ^ 4 / 1024 ^ k) @ '' '' @ units ! k))"
proof -
  have h: "(0::real) \<le> 3 * 1024 ^ 4"
    by simp
  have lt: "(3::real) * 1024 ^ 4 < 1024 ^ 5"
    by simp
  from pretty_speed_units[OF h] lt h show ?thesis
    by blast
qed

theorem pretty_speed_units_counterexample:
  "pretty_speed (1024 ^ 5) = Inl IndexError"
proof -
  have "pretty_speed_loop (1024 ^ 5) 0 = (1024 ^ 5 / 1024 ^ 5, 0 + 5)"
    by (rule pretty_speed_loop_divisions) simp_all
  then show ?thesis
    by (simp add: pretty_speed_def units_def)
qed

end
